theory Spec2Isabelle
  imports Main "HOL-Library.DAList" "HOL-Library.Word"
begin

section \<open>The report package: \<open>Sets\<close>, a string to set-of-strings map\<close>

subsection \<open>Values, errors and the store\<close>

text \<open>
  Modelled from the spec: the type \<open>StringSet\<close> and its operations \<open>MakeStringSet\<close>,
  \<open>Contains\<close>, \<open>Add\<close> and \<open>Merge\<close> live in a file of the report package that is
  not part of the sources at hand. The specification describes a StringSet as an immutable
  set of unique strings with add and set-union merge, whose iteration order carries no
  meaning; \<open>Merge\<close> also reports whether the union equals the receiver ("unchanged").
\<close>

type_synonym StringSet = "string set"

definition MakeStringSet :: "StringSet" where
  "MakeStringSet = {}"

definition StringSet_Contains :: "StringSet \<Rightarrow> string \<Rightarrow> bool" where
  "StringSet_Contains s str = (str \<in> s)"

definition StringSet_Add :: "StringSet \<Rightarrow> string \<Rightarrow> StringSet" where
  "StringSet_Add s str = insert str s"

definition StringSet_Merge :: "StringSet \<Rightarrow> StringSet \<Rightarrow> StringSet \<times> bool" where
  "StringSet_Merge s other = (s \<union> other, s \<union> other = s)"

text \<open>
  A \<open>CustomHashmap\<close> stores values of type \<open>interface{}\<close>. \<open>Sets\<close> reads them back with
  the checked type assertion \<open>value.(StringSet)\<close>, which panics on a value of any other
  dynamic type; \<open>Foreign\<close> stands for such a value.
\<close>

datatype iface = StringSetV StringSet | Foreign

text \<open>
  The ways in which a call does not return normally: a panic with its message, and a
  goroutine that blocks for ever on the \<open>sync.RWMutex\<close> of a \<open>CustomHashmap\<close>, because
  it asks for the write lock while it holds the read lock itself.
\<close>

datatype error = Panic string | Deadlock

text \<open>
  \<open>CustomHashmap\<close> is used through pointers (\<open>*CustomHashmap\<close> implements \<open>ps.Map\<close>), and
  its methods update the Go map of the receiver in place. The store maps the address of
  every \<open>CustomHashmap\<close> to the contents of its field \<open>Map\<close>: a finite table with unique
  keys, kept in the order in which \<open>range\<close> walks it. Go does not fix that order; the
  properties below are proved for every table, that is for every order. The mutex \<open>mu\<close>
  is not part of the store: one goroutine runs at a time, and the one way in which it can
  block itself is an outcome of its own (see \<open>Deadlock\<close>). The package variable
  \<open>customHashMap\<close> is the one \<open>CustomHashmap\<close> this file allocates.
\<close>

type_synonym addr = nat
type_synonym CustomHashmap = "(string, iface) alist"
type_synonym heap = "addr \<Rightarrow> CustomHashmap"

definition customHashMap :: addr where
  "customHashMap = 0"

definition NewCustomHashMap :: addr where
  "NewCustomHashMap = customHashMap"

text \<open>The state of the package once its variables are initialised: every table is empty.\<close>

definition init_heap :: heap where
  "init_heap = (\<lambda>_. DAList.empty)"

subsection \<open>The methods of \<open>CustomHashmap\<close>\<close>

text \<open>
  A pointer in the model always denotes an allocated \<open>CustomHashmap\<close>, so \<open>IsNil\<close>
  (\<open>cm == nil\<close>) is false for it.
\<close>

definition CustomHashmap_IsNil :: "addr \<Rightarrow> bool" where
  "CustomHashmap_IsNil cm = False"

text \<open>
  \<open>Set\<close> and \<open>UnsafeMutableSet\<close> have the same body: \<open>cm.Map[key] = value; return cm\<close>.
  Both write into the receiver and return the receiver itself.
\<close>

definition CustomHashmap_Set :: "addr \<Rightarrow> string \<Rightarrow> iface \<Rightarrow> heap \<Rightarrow> addr \<times> heap" where
  "CustomHashmap_Set cm key val h = (cm, h(cm := DAList.update key val (h cm)))"

definition CustomHashmap_UnsafeMutableSet :: "addr \<Rightarrow> string \<Rightarrow> iface \<Rightarrow> heap \<Rightarrow> addr \<times> heap" where
  "CustomHashmap_UnsafeMutableSet cm key val h = (cm, h(cm := DAList.update key val (h cm)))"

definition CustomHashmap_Delete :: "addr \<Rightarrow> string \<Rightarrow> heap \<Rightarrow> addr \<times> heap" where
  "CustomHashmap_Delete cm key h = (cm, h(cm := DAList.delete key (h cm)))"

definition CustomHashmap_Lookup :: "addr \<Rightarrow> string \<Rightarrow> heap \<Rightarrow> iface option \<times> bool" where
  "CustomHashmap_Lookup cm key h =
     (case DAList.lookup (h cm) key of
        Some val \<Rightarrow> (Some val, True)
      | None \<Rightarrow> (None, False))"

definition CustomHashmap_Size :: "addr \<Rightarrow> heap \<Rightarrow> nat" where
  "CustomHashmap_Size cm h = length (DAList.impl_of (h cm))"

definition CustomHashmap_Keys :: "addr \<Rightarrow> heap \<Rightarrow> string list" where
  "CustomHashmap_Keys cm h = map fst (DAList.impl_of (h cm))"

text \<open>
  \<open>ForEach\<close> takes the read lock of \<open>cm\<close>, calls \<open>f\<close> on every entry and releases the
  lock when it returns. The callback is a closure that updates variables of its caller:
  here it is a function on the state \<open>'st\<close> it closes over, and a panic inside it ends the
  walk. The entries are those of the table when the walk starts: the table of \<open>cm\<close>
  cannot change during the walk, since \<open>Set\<close> and \<open>Delete\<close> on \<open>cm\<close> need the write lock.
\<close>

fun ForEach_entries ::
  "(string \<times> iface) list \<Rightarrow> (string \<Rightarrow> iface \<Rightarrow> 'st \<Rightarrow> error + 'st) \<Rightarrow> 'st \<Rightarrow> error + 'st"
where
  "ForEach_entries [] f st = Inr st"
| "ForEach_entries ((k, v) # kvs) f st =
     (case f k v st of
        Inl e \<Rightarrow> Inl e
      | Inr st' \<Rightarrow> ForEach_entries kvs f st')"

definition CustomHashmap_ForEach ::
  "addr \<Rightarrow> (string \<Rightarrow> iface \<Rightarrow> 'st \<Rightarrow> error + 'st) \<Rightarrow> heap \<Rightarrow> 'st \<Rightarrow> error + 'st"
where
  "CustomHashmap_ForEach cm f h st = ForEach_entries (DAList.impl_of (h cm)) f st"

subsection \<open>\<open>Sets\<close>\<close>

text \<open>
  \<open>Sets\<close> is a struct with the one field \<open>psMap\<close> of the interface type \<open>ps.Map\<close>: either
  the nil interface (\<open>None\<close>) or a pointer to a \<open>CustomHashmap\<close>.
\<close>

record Sets =
  psMap :: "addr option"

definition emptySets :: Sets where
  "emptySets = \<lparr>psMap = Some NewCustomHashMap\<rparr>"

definition MakeSets :: Sets where
  "MakeSets = emptySets"

definition Sets_Keys :: "Sets \<Rightarrow> heap \<Rightarrow> string list option" where
  "Sets_Keys s h =
     (case psMap s of
        None \<Rightarrow> None
      | Some cm \<Rightarrow> Some (CustomHashmap_Keys cm h))"

definition type_assert_panic :: error where
  "type_assert_panic = Panic ''interface conversion: interface {} is not report.StringSet''"

definition nil_panic :: error where
  "nil_panic = Panic ''invalid memory address or nil pointer dereference''"

definition Sets_Add :: "Sets \<Rightarrow> string \<Rightarrow> StringSet \<Rightarrow> heap \<Rightarrow> error + (Sets \<times> heap)" where
  "Sets_Add s0 key value0 h =
     (let s = (if psMap s0 = None then emptySets else s0) in
      case psMap s of
        None \<Rightarrow> Inl nil_panic
      | Some cm \<Rightarrow>
          (case CustomHashmap_Lookup cm key h of
             (Some existingValue, True) \<Rightarrow>
               (case existingValue of
                  Foreign \<Rightarrow> Inl type_assert_panic
                | StringSetV existing \<Rightarrow>
                    (let (val, unchanged) = StringSet_Merge existing value0 in
                     if unchanged then Inr (s, h)
                     else (let (m, h') = CustomHashmap_Set cm key (StringSetV val) h
                           in Inr (\<lparr>psMap = Some m\<rparr>, h'))))
           | _ \<Rightarrow>
               (let (m, h') = CustomHashmap_Set cm key (StringSetV value0) h
                in Inr (\<lparr>psMap = Some m\<rparr>, h'))))"

definition Sets_Lookup :: "Sets \<Rightarrow> string \<Rightarrow> heap \<Rightarrow> error + (StringSet \<times> bool)" where
  "Sets_Lookup s key h =
     (case psMap s of
        None \<Rightarrow> Inr (MakeStringSet, False)
      | Some cm \<Rightarrow>
          (case CustomHashmap_Lookup cm key h of
             (Some val, True) \<Rightarrow>
               (case val of
                  StringSetV x \<Rightarrow> Inr (x, True)
                | Foreign \<Rightarrow> Inl type_assert_panic)
           | _ \<Rightarrow> Inr (MakeStringSet, False)))"

definition Sets_AddString :: "Sets \<Rightarrow> string \<Rightarrow> string \<Rightarrow> heap \<Rightarrow> error + (Sets \<times> heap)" where
  "Sets_AddString s0 key str h =
     (let s = (if psMap s0 = None then emptySets else s0) in
      case Sets_Lookup s key h of
        Inl e \<Rightarrow> Inl e
      | Inr (val, found) \<Rightarrow>
          if found \<and> StringSet_Contains val str then Inr (s, h)
          else (case psMap s of
                  None \<Rightarrow> Inl nil_panic
                | Some cm \<Rightarrow>
                    (let (m, h') = CustomHashmap_Set cm key (StringSetV (StringSet_Add val str)) h
                     in Inr (\<lparr>psMap = Some m\<rparr>, h'))))"

definition Sets_Delete :: "Sets \<Rightarrow> string \<Rightarrow> heap \<Rightarrow> Sets \<times> heap" where
  "Sets_Delete s key h =
     (case psMap s of
        None \<Rightarrow> (emptySets, h)
      | Some cm \<Rightarrow>
          (let (m, h') = CustomHashmap_Delete cm key h in
           if CustomHashmap_IsNil m then (emptySets, h')
           else (\<lparr>psMap = Some m\<rparr>, h')))"

definition Sets_Size :: "Sets \<Rightarrow> heap \<Rightarrow> nat" where
  "Sets_Size s h =
     (case psMap s of
        None \<Rightarrow> 0
      | Some cm \<Rightarrow> CustomHashmap_Size cm h)"

text \<open>
  The closure that \<open>Merge\<close> hands to \<open>iter.ForEach\<close>. It reads and assigns the variable
  \<open>result\<close> of \<open>Merge\<close> and writes through it, so its state is \<open>result\<close> and the store.
  It runs while \<open>ForEach\<close> holds the read lock of \<open>iter\<close>: \<open>result.Set\<close> asks for the write
  lock of \<open>result\<close>, and when \<open>result\<close> and \<open>iter\<close> are the same \<open>CustomHashmap\<close> that request
  is never granted.
\<close>

definition Set_under_RLock ::
  "addr \<Rightarrow> addr \<Rightarrow> string \<Rightarrow> iface \<Rightarrow> heap \<Rightarrow> error + (addr \<times> heap)"
where
  "Set_under_RLock locked cm key val h =
     (if cm = locked then Inl Deadlock else Inr (CustomHashmap_Set cm key val h))"

definition Merge_func :: "addr \<Rightarrow> string \<Rightarrow> iface \<Rightarrow> addr \<times> heap \<Rightarrow> error + (addr \<times> heap)" where
  "Merge_func iter key value0 st =
     (case st of (result, h) \<Rightarrow>
        (case value0 of
           Foreign \<Rightarrow> Inl type_assert_panic
         | StringSetV set0 \<Rightarrow>
             (case CustomHashmap_Lookup result key h of
                (Some existingSet, True) \<Rightarrow>
                  (case existingSet of
                     Foreign \<Rightarrow> Inl type_assert_panic
                   | StringSetV existing \<Rightarrow>
                       (let (set1, unchanged) = StringSet_Merge existing set0 in
                        if unchanged then Inr (result, h)
                        else Set_under_RLock iter result key (StringSetV set1) h))
              | _ \<Rightarrow> Set_under_RLock iter result key (StringSetV set0) h)))"

definition Sets_Merge :: "Sets \<Rightarrow> Sets \<Rightarrow> heap \<Rightarrow> error + (Sets \<times> heap)" where
  "Sets_Merge s other h =
     (let sSize = Sets_Size s h;
          otherSize = Sets_Size other h;
          result0 = psMap s;
          iter0 = psMap other
      in if sSize = 0 then Inr (other, h)
         else if otherSize = 0 then Inr (s, h)
         else (let (result, iter) = (if sSize < otherSize then (iter0, result0) else (result0, iter0))
               in case (result, iter) of
                    (Some r, Some i) \<Rightarrow>
                      (case CustomHashmap_ForEach i (Merge_func i) h (r, h) of
                         Inl e \<Rightarrow> Inl e
                       | Inr (r', h') \<Rightarrow> Inr (\<lparr>psMap = Some r'\<rparr>, h'))
                  | _ \<Rightarrow> Inl nil_panic))"

text \<open>
  Modelled from the spec: \<open>DeepEqual\<close> is \<open>mapEqual(s.psMap, t.psMap, reflect.DeepEqual)\<close>,
  and \<open>mapEqual\<close> is in a file of the report package that is not part of the sources at
  hand. The specification calls it the structural equality check of the type: two values
  are equal when they bind the same keys to equal sets, and a nil map is an empty one.
\<close>

definition map_entries :: "addr option \<Rightarrow> heap \<Rightarrow> (string \<times> iface) list" where
  "map_entries m h = (case m of None \<Rightarrow> [] | Some cm \<Rightarrow> DAList.impl_of (h cm))"

definition mapEqual :: "addr option \<Rightarrow> addr option \<Rightarrow> heap \<Rightarrow> bool" where
  "mapEqual m n h =
     (length (map_entries m h) = length (map_entries n h) \<and>
      list_all (\<lambda>kv. map_of (map_entries n h) (fst kv) = Some (snd kv)) (map_entries m h))"

definition Sets_DeepEqual :: "Sets \<Rightarrow> Sets \<Rightarrow> heap \<Rightarrow> bool" where
  "Sets_DeepEqual s t h = mapEqual (psMap s) (psMap t) h"

text \<open>
  \<open>MarshalJSON\<close> has a value receiver and \<open>UnmarshalJSON\<close> a pointer receiver (\<open>None\<close> is
  the nil pointer). Neither looks at its receiver or argument: the body is one \<open>panic\<close>.
\<close>

definition Sets_MarshalJSON :: "Sets \<Rightarrow> error + (8 word list \<times> string option)" where
  "Sets_MarshalJSON s = Inl (Panic ''MarshalJSON shouldn't be used, use CodecEncodeSelf instead'')"

definition Sets_UnmarshalJSON :: "Sets option \<Rightarrow> 8 word list \<Rightarrow> error + string option" where
  "Sets_UnmarshalJSON s b = Inl (Panic ''UnmarshalJSON shouldn't be used, use CodecDecodeSelf instead'')"

subsection \<open>Notions used to state the properties of \<open>Sets\<close>\<close>

text \<open>
  The finite map a \<open>ps.Map\<close> value stands for in a store (a nil \<open>ps.Map\<close> has no entry);
  the stores in which every value of a \<open>Sets\<close> is a StringSet, as every value that \<open>Add\<close>,
  \<open>AddString\<close> and \<open>Merge\<close> store is; and the union of two optional entries.
\<close>

definition table_of :: "addr option \<Rightarrow> heap \<Rightarrow> string \<rightharpoonup> iface" where
  "table_of m h = map_of (map_entries m h)"

definition StringSets_only :: "Sets \<Rightarrow> heap \<Rightarrow> bool" where
  "StringSets_only s h = list_all (\<lambda>kv. snd kv \<noteq> Foreign) (map_entries (psMap s) h)"

fun union_opt :: "iface option \<Rightarrow> iface option \<Rightarrow> iface option" where
  "union_opt a None = a"
| "union_opt None (Some b) = Some b"
| "union_opt (Some (StringSetV x)) (Some (StringSetV y)) = Some (StringSetV (x \<union> y))"
| "union_opt (Some a) (Some b) = Some Foreign"

text \<open>A key is absent from a \<open>Sets\<close> when \<open>Keys\<close> does not list it; \<open>Keys\<close> of a nil map is nil.\<close>

definition absent :: "Sets \<Rightarrow> string \<Rightarrow> heap \<Rightarrow> bool" where
  "absent s key h = (case Sets_Keys s h of None \<Rightarrow> True | Some keys \<Rightarrow> key \<notin> set keys)"

text \<open>
  A store with two more tables beside \<open>customHashMap\<close>: the first binds \<open>x\<close> to the set
  \<open>{1}\<close>, the second binds \<open>x\<close> to \<open>{2}\<close>.
\<close>

definition two_tables :: heap where
  "two_tables = init_heap(1 := DAList.update ''x'' (StringSetV {''1''}) DAList.empty,
                          2 := DAList.update ''x'' (StringSetV {''2''}) DAList.empty)"

section \<open>The app package: node queries, the report archiver and the websocket stream\<close>

subsection \<open>Go values and the standard library\<close>

text \<open>
  Values of Go's type \<open>error\<close>: the \<open>*PathError\<close> of \<open>os.Create\<close>, the error that
  \<open>fileType\<close> builds with \<open>fmt.Errorf\<close> (it carries the extension found), an error of a
  collaborator, and \<open>errors.Wrap\<close> of an error with a message.
\<close>

datatype go_error =
    PathError string
  | Unsupported_file_extension string
  | External_error string
  | Wrap go_error string

type_synonym byte = "8 word"

text \<open>
  The file system: the contents of the files that exist, and the paths at which
  \<open>os.Create\<close> succeeds. \<open>os.Create\<close> creates the named file or truncates it when it
  exists already.
\<close>

record filesystem =
  files :: "string \<rightharpoonup> byte list"
  creatable :: "string \<Rightarrow> bool"

definition os_Create :: "string \<Rightarrow> filesystem \<Rightarrow> go_error + filesystem" where
  "os_Create path fs =
     (if creatable fs path then Inr (fs\<lparr>files := (files fs)(path \<mapsto> [])\<rparr>)
      else Inl (PathError path))"

text \<open>
  \<open>filepath.Ext\<close> walks back from the end of the path to the last separator (\<open>/\<close> on the
  systems the agent runs on) and returns the suffix that starts at the first dot it meets,
  or the empty string. \<open>Ext_from\<close> is that walk on the reversed path, \<open>acc\<close> the part
  already passed.
\<close>

fun Ext_from :: "string \<Rightarrow> string \<Rightarrow> string" where
  "Ext_from [] acc = []"
| "Ext_from (c # cs) acc =
     (if c = CHR ''/'' then []
      else if c = CHR ''.'' then c # acc
      else Ext_from cs (c # acc))"

definition filepath_Ext :: "string \<Rightarrow> string" where
  "filepath_Ext path = Ext_from (rev path) []"

definition strings_HasSuffix :: "string \<Rightarrow> string \<Rightarrow> bool" where
  "strings_HasSuffix s suffix =
     (length suffix \<le> length s \<and> drop (length s - length suffix) s = suffix)"

definition strings_TrimSuffix :: "string \<Rightarrow> string \<Rightarrow> string" where
  "strings_TrimSuffix s suffix =
     (if strings_HasSuffix s suffix then take (length s - length suffix) s else s)"

text \<open>
  Instants and durations are counts of nanoseconds. A \<open>time.Duration\<close> is an \<open>int64\<close>;
  \<open>Time.Sub\<close> returns the largest or the smallest duration when the difference does not
  fit. \<open>time.Since(t)\<close> is \<open>time.Now().Sub(t)\<close>: the reading of the clock is the
  argument \<open>now\<close>.
\<close>

type_synonym Time = int
type_synonym Duration = int

definition maxDuration :: Duration where
  "maxDuration = 2 ^ 63 - 1"

definition minDuration :: Duration where
  "minDuration = - (2 ^ 63)"

definition time_Second :: Duration where
  "time_Second = 1000000000"

definition Time_Sub :: "Time \<Rightarrow> Time \<Rightarrow> Duration" where
  "Time_Sub t u =
     (if t - u > maxDuration then maxDuration
      else if t - u < minDuration then minDuration
      else t - u)"

definition time_Since :: "Time \<Rightarrow> Time \<Rightarrow> Duration" where
  "time_Since now t = Time_Sub now t"

definition Time_Add :: "Time \<Rightarrow> Duration \<Rightarrow> Time" where
  "Time_Add t d = t + d"

text \<open>\<open>url.Values\<close> is a \<open>map[string][]string\<close>; \<open>Get\<close> returns the first value of the key or the empty string.\<close>

type_synonym Values = "string \<rightharpoonup> string list"

definition Values_Get :: "Values \<Rightarrow> string \<Rightarrow> string" where
  "Values_Get v key =
     (case v key of
        None \<Rightarrow> []
      | Some vs \<Rightarrow> (case vs of [] \<Rightarrow> [] | x # _ \<Rightarrow> x))"

text \<open>
  What the handlers read from a \<open>*http.Request\<close>: the result of \<open>ParseForm\<close> and the form
  it fills, the route variables of \<open>mux.Vars\<close> (indexing a Go map at a missing key gives the
  empty string), and the censor configuration that \<open>report.GetCensorConfigFromRequest\<close>
  extracts.
\<close>

record 'cfg request =
  ParseForm :: "go_error option"
  Form :: Values
  Vars :: "string \<rightharpoonup> string"
  CensorConfig :: 'cfg

definition Vars_at :: "(string \<rightharpoonup> string) \<Rightarrow> string \<Rightarrow> string" where
  "Vars_at vars key = (case vars key of None \<Rightarrow> [] | Some x \<Rightarrow> x)"

subsection \<open>The report archiver\<close>

datatype Handle = JsonHandle | MsgpackHandle | BincHandle

definition codecHandle :: "int \<Rightarrow> Handle option" where
  "codecHandle msgpack =
     (if msgpack = 0 then Some JsonHandle
      else if msgpack = 1 then Some MsgpackHandle
      else if msgpack = 2 then Some BincHandle
      else None)"

definition fileType :: "string \<Rightarrow> int \<times> bool \<times> go_error option" where
  "fileType path =
     (let fileType0 = filepath_Ext path;
          gzipped = (fileType0 = ''.gz'');
          fileType1 = (if gzipped then filepath_Ext (strings_TrimSuffix path fileType0) else fileType0)
      in if fileType1 = ''.json'' then (0, gzipped, None)
         else if fileType1 = ''.msgpack'' then (1, gzipped, None)
         else if fileType1 = ''.binc'' then (2, gzipped, None)
         else (3, False, Some (Unsupported_file_extension fileType1)))"

text \<open>
  \<open>WriteToFile\<close> creates the file first and looks at the extension afterwards. The encoder
  of the codec library and the gzip writer are parameters: \<open>Encode handle rep\<close> gives the
  bytes the encoder writes and the error it returns, \<open>gzip\<close> the compressed form of a
  byte sequence. The deferred calls flush the buffer and close the file on every return, so
  the file holds all that was written.
\<close>

definition WriteToFile ::
  "(Handle \<Rightarrow> 'v \<Rightarrow> byte list \<times> go_error option) \<Rightarrow> (byte list \<Rightarrow> byte list) \<Rightarrow>
   string \<Rightarrow> 'v \<Rightarrow> filesystem \<Rightarrow> error + (go_error option \<times> filesystem)"
where
  "WriteToFile Encode gzip path rep fs0 =
     (case os_Create path fs0 of
        Inl err \<Rightarrow> Inr (Some err, fs0)
      | Inr fs \<Rightarrow>
          (case fileType path of
             (msgpack, gzipped, Some err) \<Rightarrow> Inr (Some err, fs)
           | (msgpack, gzipped, None) \<Rightarrow>
               (case codecHandle msgpack of
                  None \<Rightarrow> Inl nil_panic
                | Some handle \<Rightarrow>
                    (let (out, err) = Encode handle rep;
                         written = (if gzipped then gzip out else out)
                     in Inr (err, fs\<lparr>files := (files fs)(path \<mapsto> written)\<rparr>)))))"

text \<open>
  The suffixes that the specification calls supported: \<open>.json\<close>, \<open>.msgpack\<close> and
  \<open>.binc\<close>, each optionally followed by \<open>.gz\<close>.
\<close>

definition supported_suffix :: "string \<Rightarrow> bool" where
  "supported_suffix path =
     (strings_HasSuffix path ''.json'' \<or> strings_HasSuffix path ''.json.gz'' \<or>
      strings_HasSuffix path ''.msgpack'' \<or> strings_HasSuffix path ''.msgpack.gz'' \<or>
      strings_HasSuffix path ''.binc'' \<or> strings_HasSuffix path ''.binc.gz'')"

subsection \<open>The single-node query\<close>

text \<open>
  \<open>render.Nodes\<close> is the result of a renderer and of a transformer: the nodes by id and
  the number of nodes that were filtered out, a Go \<open>int\<close> (64 bits wide on the platforms
  the agent is built for; \<open>Filtered--\<close> wraps around). The map a transformer returns is
  taken to be allocated, as every map built with a literal or with \<open>make\<close> is.
\<close>

record 'n render_Nodes =
  Nodes :: "string \<rightharpoonup> 'n"
  Filtered :: "64 word"

record 're RenderContext =
  Report :: 're
  MetricsGraphURL :: string

text \<open>
  \<open>RenderContextForReporter\<close>: the second argument of the model is the
  \<open>MetricsGraphURL\<close> of the reporter when the reporter is a \<open>WebReporter\<close>.
\<close>

definition RenderContextForReporter :: "string option \<Rightarrow> 're \<Rightarrow> 're RenderContext" where
  "RenderContextForReporter wrep r =
     (let rc = \<lparr>Report = r, MetricsGraphURL = []\<rparr>
      in case wrep of
           Some url \<Rightarrow> rc\<lparr>MetricsGraphURL := url\<rparr>
         | None \<Rightarrow> rc)"

text \<open>
  The answer of \<open>handleNode\<close>: \<open>http.NotFound\<close>, or \<open>respondWith\<close> with status 200 and an
  \<open>APINode\<close> that holds the censored node.
\<close>

datatype 'd response = NotFound | StatusOK 'd

text \<open>
  What a call of \<open>handleNode\<close> leaves: the answer, the local variable \<open>nodes\<close> as it is
  when the handler returns, and the file system. The two \<open>fmt.Println\<close> calls are left
  out. The collaborators are parameters: the renderer and the transformer, and
  \<open>detailed.MakeNode\<close>, \<open>detailed.CensorNode\<close>, the encoder and the gzip writer.
\<close>

record ('n, 'd) handled =
  answer :: "'d response"
  nodes_var :: "'n render_Nodes"
  fs_after :: filesystem

definition handleNode ::
  "(string \<Rightarrow> 're RenderContext \<Rightarrow> (string \<rightharpoonup> 'n) \<Rightarrow> 'n \<Rightarrow> 'd) \<Rightarrow> ('d \<Rightarrow> 'cfg \<Rightarrow> 'd) \<Rightarrow>
   (Handle \<Rightarrow> 'd \<Rightarrow> byte list \<times> go_error option) \<Rightarrow> (byte list \<Rightarrow> byte list) \<Rightarrow>
   ('re \<Rightarrow> 'n render_Nodes) \<Rightarrow> ('n render_Nodes \<Rightarrow> 'n render_Nodes) \<Rightarrow>
   're RenderContext \<Rightarrow> 'cfg request \<Rightarrow> filesystem \<Rightarrow> error + ('n, 'd) handled"
where
  "handleNode MakeNode CensorNode Encode gzip renderer transformer rc r fs =
     (let censorCfg = CensorConfig r;
          vars = Vars r;
          topologyID = Vars_at vars ''topology'';
          nodeID = Vars_at vars ''id'';
          nodes0 = renderer (Report rc)
      in case Nodes nodes0 nodeID of
           None \<Rightarrow> Inr \<lparr>answer = NotFound, nodes_var = nodes0, fs_after = fs\<rparr>
         | Some node0 \<Rightarrow>
             (let nodes1 = transformer nodes0;
                  (node, nodes) =
                    (case Nodes nodes1 nodeID of
                       Some filteredNode \<Rightarrow> (filteredNode, nodes1)
                     | None \<Rightarrow>
                         (node0, nodes1\<lparr>Nodes := (Nodes nodes1)(nodeID \<mapsto> node0),
                                         Filtered := Filtered nodes1 - 1\<rparr>));
                  rawNode = MakeNode topologyID rc (Nodes nodes) node;
                  apiNode = CensorNode rawNode censorCfg
              in case WriteToFile Encode gzip ''var/log/response.json'' apiNode fs of
                   Inl e \<Rightarrow> Inl e
                 | Inr (err, fs') \<Rightarrow>
                     Inr \<lparr>answer = StatusOK apiNode, nodes_var = nodes, fs_after = fs'\<rparr>))"

subsection \<open>The websocket stream\<close>

text \<open>
  Modelled from the spec: the type \<open>report.Report\<close> and \<open>report.MakeTopology\<close> are in
  files of the report package that are not part of the sources at hand. The specification
  describes a report as a composite of tables of which the handler may replace one, the
  edge/endpoint table, by an empty topology. A report is its field \<open>Endpoint\<close> and the
  rest; the empty topology that \<open>MakeTopology\<close> returns is a field of the environment.
\<close>

record 'tp Report =
  Endpoint :: 'tp

datatype body = Body_error go_error | Body_text string

text \<open>
  What the handler does to its collaborators, in the order in which it does it: an answer
  written with \<open>respondWith\<close>, the upgrade of the connection, \<open>rep.WaitOn\<close> and
  \<open>rep.UnWait\<close>, \<open>time.Tick\<close> with its period, \<open>conn.Close\<close>, and in an update cycle
  \<open>rep.Report\<close> with the timestamp asked for, \<open>RendererForTopology\<close> and \<open>render.Render\<close>
  with the report they are given, and \<open>conn.WriteJSON\<close> with the diff. \<open>Upgrade\<close> stands for
  the call of \<open>xfer.Upgrade\<close>, whether it succeeds or not.
\<close>

datatype ('re, 'df) effect =
    Respond nat body
  | Upgrade
  | WaitOn
  | UnWait
  | Close
  | Tick Duration
  | Report_at Time
  | RendererForTopology_on 're
  | Render_on 're
  | WriteJSON_of 'df

text \<open>
  The collaborators of the stream: the reporter (\<open>rep.Report\<close>, and its
  \<open>MetricsGraphURL\<close> when it is a \<open>WebReporter\<close>), the topology registry, the render
  pipeline, the diff, the connection, the functions \<open>time.ParseDuration\<close>,
  \<open>deserializeTimestamp\<close> and \<open>xfer.Upgrade\<close> (the error it returns, if any), and the nil
  \<open>NodeSummaries\<close>, the zero value of the field \<open>previousTopo\<close>.
\<close>

record ('tp, 'x, 'rf, 'n, 'sm, 'df, 'cfg) collaborators =
  rep_Report :: "Time \<Rightarrow> go_error + ('tp, 'x) Report_scheme"
  rep_MetricsGraphURL :: "string option"
  MakeTopology :: 'tp
  RendererForTopology :: "string \<Rightarrow> Values \<Rightarrow> ('tp, 'x) Report_scheme \<Rightarrow> go_error + 'rf"
  render_Render :: "('tp, 'x) Report_scheme \<Rightarrow> 'rf \<Rightarrow> 'n render_Nodes"
  Summaries :: "('tp, 'x) Report_scheme RenderContext \<Rightarrow> (string \<rightharpoonup> 'n) \<Rightarrow> bool \<Rightarrow> 'sm"
  CensorNodeSummaries :: "'sm \<Rightarrow> 'cfg \<Rightarrow> 'sm"
  TopoDiff :: "'sm \<Rightarrow> 'sm \<Rightarrow> 'df"
  conn_WriteJSON :: "'df \<Rightarrow> go_error option"
  IsExpectedWSCloseError :: "go_error \<Rightarrow> bool"
  ParseDuration :: "string \<Rightarrow> go_error + Duration"
  deserializeTimestamp :: "string \<Rightarrow> Time"
  xfer_Upgrade :: "go_error option"
  nil_NodeSummaries :: 'sm

definition websocketLoop :: Duration where
  "websocketLoop = 1 * time_Second"

text \<open>
  The fields of \<open>websocketState\<close> but \<open>rep\<close> and \<open>conn\<close>, which are collaborators
  (the field \<open>values\<close> is \<open>values_wc\<close> here).
  Instants are counted from the zero \<open>time.Time\<close>, the value of \<open>reportTimestamp\<close>, which
  is never assigned.
\<close>

record ('sm, 'cfg) websocketState =
  values_wc :: Values
  previousTopo :: 'sm
  topologyID :: string
  startReportingAt :: Time
  reportTimestamp :: Time
  censorCfg :: 'cfg
  channelOpenedAt :: Time
  adjacency :: bool

text \<open>
  \<open>update\<close> returns its error, the state it leaves and what it did. \<open>now\<close> is the reading
  of the clock in \<open>time.Since\<close>. The tracing span is left out.
\<close>

definition update ::
  "('tp, 'x, 'rf, 'n, 'sm, 'df, 'cfg) collaborators \<Rightarrow> ('sm, 'cfg) websocketState \<Rightarrow> Time \<Rightarrow>
   go_error option \<times> ('sm, 'cfg) websocketState \<times> (('tp, 'x) Report_scheme, 'df) effect list"
where
  "update env wc now =
     (let timestampDelta = time_Since now (channelOpenedAt wc);
          reportTimestamp = Time_Add (startReportingAt wc) timestampDelta
      in case rep_Report env reportTimestamp of
           Inl err \<Rightarrow> (Some (Wrap err ''Error generating report''), wc, [Report_at reportTimestamp])
         | Inr re0 \<Rightarrow>
             (let re = (if adjacency wc = False then re0\<lparr>Endpoint := MakeTopology env\<rparr> else re0)
              in case RendererForTopology env (topologyID wc) (values_wc wc) re of
                   Inl err \<Rightarrow>
                     (Some (Wrap err ''Error generating report''), wc,
                      [Report_at reportTimestamp, RendererForTopology_on re])
                 | Inr rf \<Rightarrow>
                     (let newTopo =
                            CensorNodeSummaries env
                              (Summaries env (RenderContextForReporter (rep_MetricsGraphURL env) re)
                                 (Nodes (render_Render env re rf)) (adjacency wc))
                              (censorCfg wc);
                          diff = TopoDiff env (previousTopo wc) newTopo;
                          wc' = wc\<lparr>previousTopo := newTopo\<rparr>;
                          trace = [Report_at reportTimestamp, RendererForTopology_on re,
                                  Render_on re, WriteJSON_of diff]
                      in case conn_WriteJSON env diff of
                           Some err \<Rightarrow>
                             if \<not> IsExpectedWSCloseError env err
                             then (Some (Wrap err ''cannot serialize topology diff''), wc', trace)
                             else (None, wc', trace)
                         | None \<Rightarrow> (None, wc', trace))))"

text \<open>
  The state that \<open>handleWebsocket\<close> builds once the connection is upgraded: the struct
  literal and the assignment of \<open>adjacency\<close> that follows it. \<open>opened\<close> is the reading of
  \<open>time.Now()\<close> in the literal.
\<close>

definition new_websocketState ::
  "('tp, 'x, 'rf, 'n, 'sm, 'df, 'cfg) collaborators \<Rightarrow> 'cfg request \<Rightarrow> Time \<Rightarrow> ('sm, 'cfg) websocketState"
where
  "new_websocketState env r opened =
     (let wc = \<lparr>values_wc = Form r,
                previousTopo = nil_NodeSummaries env,
                topologyID = Vars_at (Vars r) ''topology'',
                startReportingAt = deserializeTimestamp env (Values_Get (Form r) ''timestamp''),
                reportTimestamp = 0,
                censorCfg = CensorConfig r,
                channelOpenedAt = opened,
                adjacency = False\<rparr>;
          adjacencyStr = Values_Get (Form r) ''adjacency''
      in if adjacencyStr = ''false'' then wc\<lparr>adjacency := False\<rparr> else wc\<lparr>adjacency := True\<rparr>)"

text \<open>
  The loop \<open>for { update; select }\<close> of \<open>handleWebsocket\<close>. What the clock shows and which
  case of the \<open>select\<close> fires are inputs: one pair for every cycle, the reading of the clock
  in \<open>update\<close> and the channel that is ready after it (\<open>wait\<close>, \<open>tick\<close> or \<open>quit\<close>). The
  result is what the cycles did and whether the handler has returned; when the input is
  used up the handler is still waiting in the \<open>select\<close>.
\<close>

datatype ready = Wait_ready | Tick_ready | Quit_ready

fun update_loop ::
  "('tp, 'x, 'rf, 'n, 'sm, 'df, 'cfg) collaborators \<Rightarrow> ('sm, 'cfg) websocketState \<Rightarrow>
   (Time \<times> ready) list \<Rightarrow> (('tp, 'x) Report_scheme, 'df) effect list \<times> bool"
where
  "update_loop env wc [] = ([], False)"
| "update_loop env wc ((now, ev) # rest) =
     (case update env wc now of
        (Some err, wc', trace) \<Rightarrow> (trace, True)
      | (None, wc', trace) \<Rightarrow>
          (case ev of
             Quit_ready \<Rightarrow> (trace, True)
           | _ \<Rightarrow> (let (more, returned) = update_loop env wc' rest in (trace @ more, returned))))"

definition handleWebsocket ::
  "('tp, 'x, 'rf, 'n, 'sm, 'df, 'cfg) collaborators \<Rightarrow> 'cfg request \<Rightarrow> Time \<Rightarrow>
   (Time \<times> ready) list \<Rightarrow> (('tp, 'x) Report_scheme, 'df) effect list"
where
  "handleWebsocket env r opened inputs =
     (case ParseForm r of
        Some err \<Rightarrow> [Respond 500 (Body_error err)]
      | None \<Rightarrow>
          (let t = Values_Get (Form r) ''t''
           in case (if t \<noteq> [] then ParseDuration env t else Inr websocketLoop) of
                Inl err \<Rightarrow> [Respond 400 (Body_text t)]
              | Inr loop \<Rightarrow>
                  (case xfer_Upgrade env of
                     Some err \<Rightarrow> [Upgrade]
                   | None \<Rightarrow>
                       (let wc = new_websocketState env r opened;
                            (cycles, returned) = update_loop env wc inputs
                        in [Upgrade, WaitOn, Tick loop] @ cycles @
                           (if returned then [UnWait, Close] else [])))))"

subsection \<open>Notions used to state the properties of the app package\<close>

text \<open>
  The timestamps asked of the reporter, the periods handed to \<open>time.Tick\<close> and the reports
  handed to the registry and to the renderer, in the order in which a run of a handler
  asks for them.
\<close>

fun reports_of :: "('re, 'df) effect list \<Rightarrow> Time list" where
  "reports_of [] = []"
| "reports_of (Report_at t # es) = t # reports_of es"
| "reports_of (e # es) = reports_of es"

fun ticks_of :: "('re, 'df) effect list \<Rightarrow> Duration list" where
  "ticks_of [] = []"
| "ticks_of (Tick d # es) = d # ticks_of es"
| "ticks_of (e # es) = ticks_of es"

fun rendered_of :: "('re, 'df) effect list \<Rightarrow> 're list" where
  "rendered_of [] = []"
| "rendered_of (RendererForTopology_on re # es) = re # rendered_of es"
| "rendered_of (Render_on re # es) = re # rendered_of es"
| "rendered_of (e # es) = rendered_of es"

subsection \<open>Concrete collaborators\<close>

text \<open>
  An empty disk on which every file can be created, an encoder that writes nothing and a
  gzip writer that copies its input.
\<close>

definition empty_disk :: filesystem where
  "empty_disk = \<lparr>files = Map.empty, creatable = (\<lambda>path. True)\<rparr>"

definition no_bytes :: "Handle \<Rightarrow> 'v \<Rightarrow> byte list \<times> go_error option" where
  "no_bytes handle rep = ([], None)"

definition no_gzip :: "byte list \<Rightarrow> byte list" where
  "no_gzip bs = bs"

text \<open>
  A renderer that knows the one node \<open>n1\<close>, a transformer that filters every node out and
  counts one filtered node, the request for the node \<open>n1\<close> of the topology \<open>hosts\<close>, and a
  node detail that is the node itself, left uncensored.
\<close>

definition one_node :: "unit \<Rightarrow> string render_Nodes" where
  "one_node rep = \<lparr>Nodes = [''n1'' \<mapsto> ''host-1''], Filtered = 0\<rparr>"

definition drop_all :: "string render_Nodes \<Rightarrow> string render_Nodes" where
  "drop_all ns = \<lparr>Nodes = Map.empty, Filtered = 1\<rparr>"

definition node_request :: "unit request" where
  "node_request =
     \<lparr>ParseForm = None, Form = Map.empty,
      Vars = [''topology'' \<mapsto> ''hosts'', ''id'' \<mapsto> ''n1''], CensorConfig = ()\<rparr>"

definition plain_node :: "string \<Rightarrow> unit RenderContext \<Rightarrow> (string \<rightharpoonup> string) \<Rightarrow> string \<Rightarrow> string" where
  "plain_node topology rc ns node = node"

definition no_censor :: "string \<Rightarrow> unit \<Rightarrow> string" where
  "no_censor node cfg = node"

text \<open>
  Collaborators of a stream: a reporter whose reports have five endpoints, a renderer that
  always renders the node \<open>n1\<close>, a connection that accepts every message, a
  \<open>ParseDuration\<close> that knows \<open>500ms\<close> only, and the replay origin 1000. A request of the
  stream is given by its form parameters.
\<close>

definition demo_env :: "(nat, unit, unit, string, string list, string list, unit) collaborators" where
  "demo_env =
     \<lparr>rep_Report = (\<lambda>t. Inr \<lparr>Endpoint = 5\<rparr>),
      rep_MetricsGraphURL = None,
      MakeTopology = 0,
      RendererForTopology = (\<lambda>topologyID vs re. Inr ()),
      render_Render = (\<lambda>re rf. \<lparr>Nodes = [''n1'' \<mapsto> ''host-1''], Filtered = 0\<rparr>),
      Summaries = (\<lambda>rc ns adj. [''n1'']),
      CensorNodeSummaries = (\<lambda>sm cfg. sm),
      TopoDiff = (\<lambda>old new. new),
      conn_WriteJSON = (\<lambda>diff. None),
      IsExpectedWSCloseError = (\<lambda>err. False),
      ParseDuration = (\<lambda>str. if str = ''500ms'' then Inr 500000000
                              else Inl (External_error ''time: invalid duration'')),
      deserializeTimestamp = (\<lambda>str. 1000),
      xfer_Upgrade = None,
      nil_NodeSummaries = []\<rparr>"

definition stream_request :: "(string \<times> string list) list \<Rightarrow> unit request" where
  "stream_request params =
     \<lparr>ParseForm = None, Form = map_of params, Vars = [''topology'' \<mapsto> ''hosts''], CensorConfig = ()\<rparr>"

section \<open>Properties of \<open>Sets\<close>\<close>

subsection \<open>The walk of \<open>Merge\<close>\<close>

lemma Merge_func_step:
  assumes "r \<noteq> i" and "DAList.lookup (h r) k \<noteq> Some Foreign"
  shows "\<exists>T. Merge_func i k (StringSetV y) (r, h) = Inr (r, h(r := T)) \<and>
             DAList.lookup T = (DAList.lookup (h r))(k := union_opt (DAList.lookup (h r) k) (Some (StringSetV y)))"
proof (cases "DAList.lookup (h r) k")
  case None
  then show ?thesis using assms
    by (auto simp: Merge_func_def CustomHashmap_Lookup_def Set_under_RLock_def CustomHashmap_Set_def
        DAList.lookup_update fun_eq_iff)
next
  case (Some v)
  then obtain x where v: "v = StringSetV x" using assms by (cases v) auto
  show ?thesis
  proof (cases "x \<union> y = x")
    case True
    have "h(r := h r) = h" by simp
    moreover have "DAList.lookup (h r) = (DAList.lookup (h r))(k := union_opt (DAList.lookup (h r) k) (Some (StringSetV y)))"
      using Some v True by (auto simp: fun_eq_iff)
    moreover have "Merge_func i k (StringSetV y) (r, h) = Inr (r, h)"
      using Some v True by (simp add: Merge_func_def CustomHashmap_Lookup_def StringSet_Merge_def)
    ultimately show ?thesis by metis
  next
    case False
    then show ?thesis using Some v assms
      by (auto simp: Merge_func_def CustomHashmap_Lookup_def Set_under_RLock_def CustomHashmap_Set_def
          StringSet_Merge_def DAList.lookup_update fun_eq_iff)
  qed
qed

lemma ForEach_Merge_func_distinct:
  assumes "r \<noteq> i" and "distinct (map fst kvs)"
    and "list_all (\<lambda>kv. snd kv \<noteq> Foreign) kvs"
    and "\<forall>k. DAList.lookup (h r) k \<noteq> Some Foreign"
  shows "\<exists>T. ForEach_entries kvs (Merge_func i) (r, h) = Inr (r, h(r := T)) \<and>
             (\<forall>k. DAList.lookup T k = union_opt (DAList.lookup (h r) k) (map_of kvs k))"
  using assms
proof (induction kvs arbitrary: h)
  case Nil
  have "h(r := h r) = h" by simp
  then show ?case by (metis ForEach_entries.simps(1) map_of.simps(1) union_opt.simps(1))
next
  case (Cons kv kvs)
  obtain k v where kv: "kv = (k, v)" by (cases kv)
  with Cons.prems obtain y where v: "v = StringSetV y" by (cases v) auto
  from Cons.prems have knot: "map_of kvs k = None"
    by (auto simp: kv map_of_eq_None_iff)
  from Merge_func_step[OF \<open>r \<noteq> i\<close>, of h k y] Cons.prems(4)
  obtain T1 where step: "Merge_func i k (StringSetV y) (r, h) = Inr (r, h(r := T1))"
    and T1: "DAList.lookup T1 = (DAList.lookup (h r))(k := union_opt (DAList.lookup (h r) k) (Some (StringSetV y)))"
    by blast
  have wt1: "\<forall>k'. DAList.lookup ((h(r := T1)) r) k' \<noteq> Some Foreign"
  proof
    fix k'
    show "DAList.lookup ((h(r := T1)) r) k' \<noteq> Some Foreign"
      using Cons.prems(4) T1
      by (cases "DAList.lookup (h r) k"; cases "the (DAList.lookup (h r) k)") (auto simp: fun_eq_iff)
  qed
  have d: "distinct (map fst kvs)" and l: "list_all (\<lambda>kv. snd kv \<noteq> Foreign) kvs"
    using Cons.prems by auto
  have "\<exists>T. ForEach_entries kvs (Merge_func i) (r, h(r := T1)) = Inr (r, (h(r := T1))(r := T)) \<and>
             (\<forall>k. DAList.lookup T k = union_opt (DAList.lookup ((h(r := T1)) r) k) (map_of kvs k))"
    by (rule Cons.IH[of "h(r := T1)", OF \<open>r \<noteq> i\<close> d l wt1])
  then obtain T where rest: "ForEach_entries kvs (Merge_func i) (r, h(r := T1)) = Inr (r, h(r := T))"
    and T: "\<forall>k'. DAList.lookup T k' = union_opt (DAList.lookup T1 k') (map_of kvs k')"
    unfolding fun_upd_upd fun_upd_same by blast
  have "ForEach_entries (kv # kvs) (Merge_func i) (r, h) = Inr (r, h(r := T))"
    using step rest by (simp add: kv v)
  moreover have "\<forall>k'. DAList.lookup T k' = union_opt (DAList.lookup (h r) k') (map_of (kv # kvs) k')"
    using T T1 knot by (auto simp: kv v)
  ultimately show ?case by blast
qed

lemma ForEach_Merge_func_same:
  assumes "list_all (\<lambda>kv. snd kv \<noteq> Foreign \<and> DAList.lookup (h r) (fst kv) = Some (snd kv)) kvs"
  shows "ForEach_entries kvs (Merge_func i) (r, h) = Inr (r, h)"
  using assms
proof (induction kvs)
  case Nil
  then show ?case by simp
next
  case (Cons kv kvs)
  obtain k v where kv: "kv = (k, v)" by (cases kv)
  with Cons.prems obtain y where v: "v = StringSetV y" by (cases v) auto
  have "Merge_func i k v (r, h) = Inr (r, h)"
    using Cons.prems by (simp add: kv v Merge_func_def CustomHashmap_Lookup_def StringSet_Merge_def)
  then show ?case using Cons by (simp add: kv)
qed


lemma table_of_Some: "table_of (Some a) h = DAList.lookup (h a)"
  by (simp add: table_of_def map_entries_def DAList.lookup.rep_eq)

lemma table_of_None: "table_of None h = Map.empty"
  by (simp add: table_of_def map_entries_def)

lemma StringSets_only_table:
  "StringSets_only s h \<Longrightarrow> table_of (psMap s) h k \<noteq> Some Foreign"
  unfolding StringSets_only_def table_of_def list_all_iff
  by (auto dest!: map_of_SomeD)

lemma Size_0_table: "Sets_Size s h = 0 \<Longrightarrow> table_of (psMap s) h = Map.empty"
  by (auto simp: Sets_Size_def CustomHashmap_Size_def table_of_def map_entries_def split: option.splits)

lemma union_opt_empty_left: "union_opt None v = v"
  by (cases v) simp_all

lemma union_opt_commute:
  "a \<noteq> Some Foreign \<Longrightarrow> b \<noteq> Some Foreign \<Longrightarrow> union_opt a b = union_opt b a"
  by (cases "(a, b)" rule: union_opt.cases) (auto simp: Un_commute union_opt_empty_left)

lemma union_opt_same: "a \<noteq> Some Foreign \<Longrightarrow> union_opt a a = a"
  by (cases "(a, a)" rule: union_opt.cases) auto

lemma Merge_walk:
  assumes wr: "\<forall>k. DAList.lookup (h r) k \<noteq> Some Foreign"
    and wi: "\<forall>k. DAList.lookup (h i) k \<noteq> Some Foreign"
  shows "\<exists>h'. CustomHashmap_ForEach i (Merge_func i) h (r, h) = Inr (r, h') \<and>
           (\<forall>a. a \<noteq> r \<longrightarrow> h' a = h a) \<and>
           (\<forall>k. DAList.lookup (h' r) k = union_opt (DAList.lookup (h r) k) (DAList.lookup (h i) k))"
proof (cases "r = i")
  case True
  have "list_all (\<lambda>kv. snd kv \<noteq> Foreign \<and> DAList.lookup (h r) (fst kv) = Some (snd kv)) (DAList.impl_of (h i))"
    using wi True by (auto simp: list_all_iff DAList.lookup.rep_eq)
  then have "CustomHashmap_ForEach i (Merge_func i) h (r, h) = Inr (r, h)"
    unfolding CustomHashmap_ForEach_def by (rule ForEach_Merge_func_same)
  moreover have "\<forall>k. DAList.lookup (h r) k = union_opt (DAList.lookup (h r) k) (DAList.lookup (h i) k)"
    using wr True by (simp add: union_opt_same)
  ultimately show ?thesis by blast
next
  case False
  have l: "list_all (\<lambda>kv. snd kv \<noteq> Foreign) (DAList.impl_of (h i))"
    using wi by (auto simp: list_all_iff DAList.lookup.rep_eq)
  have d: "distinct (map fst (DAList.impl_of (h i)))" by simp
  from ForEach_Merge_func_distinct[of r i "DAList.impl_of (h i)" h, OF False d l wr]
  obtain T where "ForEach_entries (DAList.impl_of (h i)) (Merge_func i) (r, h) = Inr (r, h(r := T))"
    and "\<forall>k. DAList.lookup T k = union_opt (DAList.lookup (h r) k) (map_of (DAList.impl_of (h i)) k)"
    by blast
  then show ?thesis
    by (auto simp: CustomHashmap_ForEach_def DAList.lookup.rep_eq)
qed

lemma Sets_Merge_char:
  assumes ws: "StringSets_only s h" and wo: "StringSets_only other h"
  shows "\<exists>r h'. Sets_Merge s other h = Inr (r, h') \<and>
           (r = s \<or> r = other) \<and>
           (\<forall>a. psMap r \<noteq> Some a \<longrightarrow> h' a = h a) \<and>
           (\<forall>k. table_of (psMap r) h' k = union_opt (table_of (psMap s) h k) (table_of (psMap other) h k))"
proof -
  note ts = StringSets_only_table[OF ws] and tother = StringSets_only_table[OF wo]
  consider (a) "Sets_Size s h = 0"
    | (b) "Sets_Size s h \<noteq> 0" "Sets_Size other h = 0"
    | (c) "Sets_Size s h \<noteq> 0" "Sets_Size other h \<noteq> 0" by blast
  then show ?thesis
  proof cases
    case a
    then have "Sets_Merge s other h = Inr (other, h)" by (simp add: Sets_Merge_def)
    moreover have "\<forall>k. table_of (psMap other) h k = union_opt (table_of (psMap s) h k) (table_of (psMap other) h k)"
      using Size_0_table[OF a] by (simp add: union_opt_empty_left)
    ultimately show ?thesis by blast
  next
    case b
    then have "Sets_Merge s other h = Inr (s, h)" by (simp add: Sets_Merge_def)
    moreover have "\<forall>k. table_of (psMap s) h k = union_opt (table_of (psMap s) h k) (table_of (psMap other) h k)"
      using Size_0_table[OF b(2)] by simp
    ultimately show ?thesis by blast
  next
    case c
    then obtain x y where x: "psMap s = Some x" and y: "psMap other = Some y"
      by (auto simp: Sets_Size_def split: option.splits)
    have sx: "s = \<lparr>psMap = Some x\<rparr>" and oy: "other = \<lparr>psMap = Some y\<rparr>" using x y by auto
    have wx: "\<forall>k. DAList.lookup (h x) k \<noteq> Some Foreign" using ts by (simp add: x table_of_Some)
    have wy: "\<forall>k. DAList.lookup (h y) k \<noteq> Some Foreign" using tother by (simp add: y table_of_Some)
    show ?thesis
    proof (cases "Sets_Size s h < Sets_Size other h")
      case True
      from Merge_walk[OF wy wx] obtain h' where
        run: "CustomHashmap_ForEach x (Merge_func x) h (y, h) = Inr (y, h')"
        and frame: "\<forall>a. a \<noteq> y \<longrightarrow> h' a = h a"
        and tab: "\<forall>k. DAList.lookup (h' y) k = union_opt (DAList.lookup (h y) k) (DAList.lookup (h x) k)"
        by blast
      have "Sets_Merge s other h = Inr (other, h')"
        using c True run by (simp add: Sets_Merge_def x y oy)
      moreover have "\<forall>k. table_of (psMap other) h' k = union_opt (table_of (psMap s) h k) (table_of (psMap other) h k)"
        using tab wx wy by (simp add: x y table_of_Some union_opt_commute)
      moreover have "\<forall>a. psMap other \<noteq> Some a \<longrightarrow> h' a = h a" using frame y by auto
      ultimately show ?thesis by blast
    next
      case False
      from Merge_walk[OF wx wy] obtain h' where
        run: "CustomHashmap_ForEach y (Merge_func y) h (x, h) = Inr (x, h')"
        and frame: "\<forall>a. a \<noteq> x \<longrightarrow> h' a = h a"
        and tab: "\<forall>k. DAList.lookup (h' x) k = union_opt (DAList.lookup (h x) k) (DAList.lookup (h y) k)"
        by blast
      have "Sets_Merge s other h = Inr (s, h')"
        using c False run by (simp add: Sets_Merge_def x y sx)
      moreover have "\<forall>k. table_of (psMap s) h' k = union_opt (table_of (psMap s) h k) (table_of (psMap other) h k)"
        using tab by (simp add: x y table_of_Some)
      moreover have "\<forall>a. psMap s \<noteq> Some a \<longrightarrow> h' a = h a" using frame x by auto
      ultimately show ?thesis by blast
    qed
  qed
qed


lemma distinct_map_entries: "distinct (map fst (map_entries m h))"
  by (cases m) (simp_all add: map_entries_def)

lemma length_map_entries: "length (map_entries m h) = card (dom (table_of m h))"
proof -
  have "card (dom (table_of m h)) = card (set (map fst (map_entries m h)))"
    by (simp add: table_of_def dom_map_of_conv_image_fst)
  also have "\<dots> = length (map fst (map_entries m h))"
    by (rule distinct_card[OF distinct_map_entries])
  finally show ?thesis by simp
qed

lemma mapEqual_iff: "mapEqual m n h \<longleftrightarrow> table_of m h = table_of n h"
proof
  assume eq: "mapEqual m n h"
  have sub: "table_of m h k = Some v \<Longrightarrow> table_of n h k = Some v" for k v
  proof -
    assume "table_of m h k = Some v"
    then have "(k, v) \<in> set (map_entries m h)"
      unfolding table_of_def by (rule map_of_SomeD)
    moreover have "\<forall>kv\<in>set (map_entries m h). map_of (map_entries n h) (fst kv) = Some (snd kv)"
      using eq by (simp add: mapEqual_def list_all_iff)
    ultimately show "table_of n h k = Some v"
      unfolding table_of_def by fastforce
  qed
  then have "dom (table_of m h) \<subseteq> dom (table_of n h)" by auto
  moreover have "card (dom (table_of m h)) = card (dom (table_of n h))"
    using eq by (simp add: mapEqual_def length_map_entries)
  moreover have "finite (dom (table_of n h))" by (simp add: table_of_def finite_dom_map_of)
  ultimately have d: "dom (table_of m h) = dom (table_of n h)"
    by (simp add: card_subset_eq)
  show "table_of m h = table_of n h"
  proof
    fix k
    show "table_of m h k = table_of n h k"
    proof (cases "table_of m h k")
      case None
      then show ?thesis using d by (metis domIff)
    next
      case (Some v)
      then show ?thesis using sub by simp
    qed
  qed
next
  assume eq: "table_of m h = table_of n h"
  have "length (map_entries m h) = length (map_entries n h)"
    by (simp add: length_map_entries eq)
  moreover have "list_all (\<lambda>kv. map_of (map_entries n h) (fst kv) = Some (snd kv)) (map_entries m h)"
    unfolding list_all_iff
  proof
    fix kv assume "kv \<in> set (map_entries m h)"
    then have "map_of (map_entries m h) (fst kv) = Some (snd kv)"
      by (intro map_of_is_SomeI distinct_map_entries) simp
    then show "map_of (map_entries n h) (fst kv) = Some (snd kv)"
      using eq by (simp add: table_of_def)
  qed
  ultimately show "mapEqual m n h" by (simp add: mapEqual_def)
qed

lemma StringSets_only_iff:
  "StringSets_only s h \<longleftrightarrow> (\<forall>k. table_of (psMap s) h k \<noteq> Some Foreign)"
proof
  assume "StringSets_only s h"
  then show "\<forall>k. table_of (psMap s) h k \<noteq> Some Foreign"
    by (simp add: StringSets_only_table)
next
  assume a: "\<forall>k. table_of (psMap s) h k \<noteq> Some Foreign"
  show "StringSets_only s h"
    unfolding StringSets_only_def list_all_iff
  proof
    fix kv assume "kv \<in> set (map_entries (psMap s) h)"
    then have "table_of (psMap s) h (fst kv) = Some (snd kv)"
      unfolding table_of_def by (intro map_of_is_SomeI distinct_map_entries) simp
    then show "snd kv \<noteq> Foreign" using a by metis
  qed
qed

lemma Sets_Lookup_table:
  "Sets_Lookup s k h =
     (case table_of (psMap s) h k of
        None \<Rightarrow> Inr ({}, False)
      | Some Foreign \<Rightarrow> Inl type_assert_panic
      | Some (StringSetV x) \<Rightarrow> Inr (x, True))"
  by (auto simp: Sets_Lookup_def CustomHashmap_Lookup_def MakeStringSet_def table_of_Some table_of_None
      split: option.splits iface.splits)

lemma union_opt_Foreign:
  "a \<noteq> Some Foreign \<Longrightarrow> b \<noteq> Some Foreign \<Longrightarrow> union_opt a b \<noteq> Some Foreign"
  by (cases "(a, b)" rule: union_opt.cases) auto

lemma not_Foreign_cases:
  "a \<noteq> Some Foreign \<Longrightarrow> a = None \<or> (\<exists>x. a = Some (StringSetV x))"
  by (cases a) (auto intro: iface.exhaust)

lemma union_opt_absorb:
  assumes "a \<noteq> Some Foreign" and "b \<noteq> Some Foreign"
  shows "union_opt (union_opt a b) a = union_opt a b"
    and "union_opt (union_opt a b) b = union_opt a b"
    and "union_opt a (union_opt a b) = union_opt a b"
    and "union_opt b (union_opt a b) = union_opt a b"
    and "union_opt (union_opt a b) (union_opt a b) = union_opt a b"
  using not_Foreign_cases[OF assms(1)] not_Foreign_cases[OF assms(2)]
  by (auto simp: union_opt_empty_left)


lemma key_in_entries: "k \<in> fst ` set (map_entries m h) \<longleftrightarrow> table_of m h k \<noteq> None"
  unfolding table_of_def by (simp add: map_of_eq_None_iff)

lemma Sets_Merge_same:
  assumes "StringSets_only s h"
  shows "Sets_Merge s s h = Inr (s, h)"
proof (cases "Sets_Size s h = 0")
  case True
  then show ?thesis by (simp add: Sets_Merge_def)
next
  case False
  then obtain x where x: "psMap s = Some x"
    by (auto simp: Sets_Size_def split: option.splits)
  have sx: "\<lparr>psMap = Some x\<rparr> = s" using x by simp
  have "list_all (\<lambda>kv. snd kv \<noteq> Foreign \<and> DAList.lookup (h x) (fst kv) = Some (snd kv)) (DAList.impl_of (h x))"
    using assms by (auto simp: StringSets_only_def map_entries_def x list_all_iff DAList.lookup.rep_eq)
  then have "CustomHashmap_ForEach x (Merge_func x) h (x, h) = Inr (x, h)"
    unfolding CustomHashmap_ForEach_def by (rule ForEach_Merge_func_same)
  then show ?thesis using False by (simp add: Sets_Merge_def x sx)
qed

lemma Sets_DeepEqual_iff:
  "Sets_DeepEqual s t h \<longleftrightarrow> table_of (psMap s) h = table_of (psMap t) h"
  by (simp add: Sets_DeepEqual_def mapEqual_iff)

lemma Sets_Lookup_eqI:
  "table_of (psMap s) h = table_of (psMap t) h' \<Longrightarrow> Sets_Lookup s k h = Sets_Lookup t k h'"
  by (simp add: Sets_Lookup_table)

lemma table_after_Merge:
  assumes frame: "\<forall>a. psMap r \<noteq> Some a \<longrightarrow> h' a = h a"
  shows "psMap t = psMap r \<or> table_of (psMap t) h' = table_of (psMap t) h"
proof (cases "psMap t")
  case None
  then show ?thesis by (simp add: table_of_None)
next
  case (Some a)
  then show ?thesis using frame by (cases "psMap r = Some a") (auto simp: table_of_Some)
qed

lemma Merge_then_Merge:
  assumes w1: "StringSets_only s1 h" and w2: "StringSets_only s2 h"
  shows "\<exists>r1 h1 r2 h2.
           Sets_Merge s1 s2 h = Inr (r1, h1) \<and> Sets_Merge s2 s1 h1 = Inr (r2, h2) \<and>
           table_of (psMap r1) h2 = table_of (psMap r2) h2 \<and>
           table_of (psMap r1) h2 = table_of (psMap r1) h1"
proof -
  let ?t1 = "table_of (psMap s1) h" and ?t2 = "table_of (psMap s2) h"
  let ?U = "\<lambda>k. union_opt (?t1 k) (?t2 k)"
  have n1: "?t1 k \<noteq> Some Foreign" and n2: "?t2 k \<noteq> Some Foreign" for k
    using w1 w2 by (simp_all add: StringSets_only_table)
  have nU: "?U k \<noteq> Some Foreign" for k by (rule union_opt_Foreign[OF n1 n2])
  from Sets_Merge_char[OF w1 w2] obtain r1 h1 where
    run1: "Sets_Merge s1 s2 h = Inr (r1, h1)"
    and r1: "r1 = s1 \<or> r1 = s2"
    and frame1: "\<forall>a. psMap r1 \<noteq> Some a \<longrightarrow> h1 a = h a"
    and tab1: "table_of (psMap r1) h1 = ?U"
    by blast
  have c1: "table_of (psMap s1) h1 = ?U \<or> table_of (psMap s1) h1 = ?t1"
    using table_after_Merge[OF frame1, of s1] tab1 by auto
  have c2: "table_of (psMap s2) h1 = ?U \<or> table_of (psMap s2) h1 = ?t2"
    using table_after_Merge[OF frame1, of s2] tab1 by auto
  have one: "table_of (psMap s1) h1 = ?U \<or> table_of (psMap s2) h1 = ?U"
    using r1 tab1 by auto
  have w1': "StringSets_only s1 h1" using c1 n1 nU by (auto simp: StringSets_only_iff)
  have w2': "StringSets_only s2 h1" using c2 n2 nU by (auto simp: StringSets_only_iff)
  from Sets_Merge_char[OF w2' w1'] obtain r2 h2 where
    run2: "Sets_Merge s2 s1 h1 = Inr (r2, h2)"
    and r2: "r2 = s2 \<or> r2 = s1"
    and frame2: "\<forall>a. psMap r2 \<noteq> Some a \<longrightarrow> h2 a = h1 a"
    and tab2: "table_of (psMap r2) h2 = (\<lambda>k. union_opt (table_of (psMap s2) h1 k) (table_of (psMap s1) h1 k))"
    by blast
  have U2: "table_of (psMap r2) h2 = ?U"
  proof
    fix k
    have "union_opt (table_of (psMap s2) h1 k) (table_of (psMap s1) h1 k) = ?U k"
      using c1 c2 one union_opt_absorb[OF n1[of k] n2[of k]] union_opt_commute[OF n1[of k] n2[of k]]
      by (metis (no_types, lifting))
    then show "table_of (psMap r2) h2 k = ?U k" by (simp add: tab2)
  qed
  have "table_of (psMap r1) h2 = ?U"
    using table_after_Merge[OF frame2, of r1] U2 tab1 by auto
  then have "Sets_Merge s1 s2 h = Inr (r1, h1) \<and> Sets_Merge s2 s1 h1 = Inr (r2, h2) \<and>
           table_of (psMap r1) h2 = table_of (psMap r2) h2 \<and>
           table_of (psMap r1) h2 = table_of (psMap r1) h1"
    using run1 run2 U2 tab1 by simp
  then show ?thesis by (intro exI)
qed

subsection \<open>Evaluation of concrete tables\<close>

lemmas table_eval = map_entries_def StringSets_only_def DAList.update.rep_eq DAList.empty.rep_eq
  DAList.lookup.rep_eq init_heap_def CustomHashmap_Lookup_def Sets_Lookup_def MakeStringSet_def

subsection \<open>Lookup after Merge\<close>

text \<open>
  Claim C2. For all \<open>Sets\<close> values \<open>s1\<close> and \<open>s2\<close> that hold StringSets and every key \<open>k\<close>,
  \<open>s1.Merge(s2)\<close> returns, and \<open>Lookup(k)\<close> on the result returns the union of the sets
  that \<open>s1.Lookup(k)\<close> and \<open>s2.Lookup(k)\<close> return before the merge; the found flag is true
  exactly when \<open>k\<close> is a key of \<open>s1\<close> or of \<open>s2\<close>.
\<close>

theorem Merge_Lookup_union:
  assumes "StringSets_only s1 h" and "StringSets_only s2 h"
  shows "\<exists>r h' v1 found1 v2 found2.
           Sets_Merge s1 s2 h = Inr (r, h') \<and>
           Sets_Lookup s1 k h = Inr (v1, found1) \<and>
           Sets_Lookup s2 k h = Inr (v2, found2) \<and>
           Sets_Lookup r k h' = Inr (v1 \<union> v2, found1 \<or> found2) \<and>
           found1 = (k \<in> set (map fst (map_entries (psMap s1) h))) \<and>
           found2 = (k \<in> set (map fst (map_entries (psMap s2) h)))"
proof -
  from Sets_Merge_char[OF assms] obtain r h' where
    run: "Sets_Merge s1 s2 h = Inr (r, h')"
    and tab: "table_of (psMap r) h' k = union_opt (table_of (psMap s1) h k) (table_of (psMap s2) h k)"
    by blast
  from assms have "table_of (psMap s1) h k \<noteq> Some Foreign" "table_of (psMap s2) h k \<noteq> Some Foreign"
    by (simp_all add: StringSets_only_table)
  then consider x y where "table_of (psMap s1) h k = Some (StringSetV x)" "table_of (psMap s2) h k = Some (StringSetV y)"
    | x where "table_of (psMap s1) h k = Some (StringSetV x)" "table_of (psMap s2) h k = None"
    | y where "table_of (psMap s1) h k = None" "table_of (psMap s2) h k = Some (StringSetV y)"
    | "table_of (psMap s1) h k = None" "table_of (psMap s2) h k = None"
    by (metis not_Foreign_cases)
  then show ?thesis
    by cases (auto simp: run tab Sets_Lookup_table key_in_entries)
qed

text \<open>The second example scenario of the specification: \<open>{x: {1}}\<close> merged with \<open>{x: {2}}\<close>.\<close>

theorem Merge_Lookup_union_witness:
  "StringSets_only \<lparr>psMap = Some 1\<rparr> two_tables \<and> StringSets_only \<lparr>psMap = Some 2\<rparr> two_tables \<and>
   (\<exists>r h'. Sets_Merge \<lparr>psMap = Some 1\<rparr> \<lparr>psMap = Some 2\<rparr> two_tables = Inr (r, h') \<and>
            Sets_Lookup r ''x'' h' = Inr ({''1'', ''2''}, True))"
proof -
  have w1: "StringSets_only \<lparr>psMap = Some 1\<rparr> two_tables"
    and w2: "StringSets_only \<lparr>psMap = Some 2\<rparr> two_tables"
    by (simp_all add: two_tables_def table_eval)
  have l1: "Sets_Lookup \<lparr>psMap = Some 1\<rparr> ''x'' two_tables = Inr ({''1''}, True)"
    and l2: "Sets_Lookup \<lparr>psMap = Some 2\<rparr> ''x'' two_tables = Inr ({''2''}, True)"
    by (simp_all add: two_tables_def table_eval)
  from Merge_Lookup_union[OF w1 w2, of "''x''"]
  obtain r h' v1 found1 v2 found2 where
    run: "Sets_Merge \<lparr>psMap = Some 1\<rparr> \<lparr>psMap = Some 2\<rparr> two_tables = Inr (r, h')"
    and a: "Sets_Lookup \<lparr>psMap = Some 1\<rparr> ''x'' two_tables = Inr (v1, found1)"
    and b: "Sets_Lookup \<lparr>psMap = Some 2\<rparr> ''x'' two_tables = Inr (v2, found2)"
    and c: "Sets_Lookup r ''x'' h' = Inr (v1 \<union> v2, found1 \<or> found2)"
    by blast
  from a l1 have "v1 = {''1''}" "found1" by simp_all
  moreover from b l2 have "v2 = {''2''}" by simp
  moreover have "{''1''} \<union> {''2''} = {''1'', ''2''}" by auto
  ultimately have "Sets_Lookup r ''x'' h' = Inr ({''1'', ''2''}, True)"
    using c by simp
  with run w1 w2 show ?thesis by simp
qed

subsection \<open>Merge is idempotent and commutative\<close>

text \<open>
  Claim C3. For \<open>Sets\<close> values that hold StringSets. Idempotence: \<open>s.Merge(s)\<close> returns and
  leaves the store as it was, the value it returns is \<open>DeepEqual\<close> to \<open>s\<close> in that store, and
  \<open>Lookup\<close> on it returns at every key what \<open>Lookup\<close> on \<open>s\<close> returned before the call.
  Commutativity: \<open>s1.Merge(s2)\<close> followed by \<open>s2.Merge(s1)\<close> returns two values that are
  \<open>DeepEqual\<close>, and the second call does not change what \<open>Lookup\<close> returns on the result of
  the first; and \<open>s1.Merge(s2)\<close> and \<open>s2.Merge(s1)\<close>, each run from the same store, return
  values on which \<open>Lookup\<close> agrees at every key.
\<close>

theorem Merge_idempotent_commutative:
  assumes "StringSets_only s h" and "StringSets_only s1 h" and "StringSets_only s2 h"
  shows "(\<exists>r h'. Sets_Merge s s h = Inr (r, h') \<and> h' = h \<and> Sets_DeepEqual r s h \<and>
            (\<forall>k. Sets_Lookup r k h' = Sets_Lookup s k h)) \<and>
         (\<exists>r1 h1 r2 h2. Sets_Merge s1 s2 h = Inr (r1, h1) \<and> Sets_Merge s2 s1 h1 = Inr (r2, h2) \<and>
            Sets_DeepEqual r1 r2 h2 \<and> (\<forall>k. Sets_Lookup r1 k h2 = Sets_Lookup r1 k h1)) \<and>
         (\<exists>r1 h1 r2 h2. Sets_Merge s1 s2 h = Inr (r1, h1) \<and> Sets_Merge s2 s1 h = Inr (r2, h2) \<and>
            (\<forall>k. Sets_Lookup r1 k h1 = Sets_Lookup r2 k h2))"
proof (intro conjI)
  have "Sets_Merge s s h = Inr (s, h) \<and> h = h \<and> Sets_DeepEqual s s h \<and>
          (\<forall>k. Sets_Lookup s k h = Sets_Lookup s k h)"
    using Sets_Merge_same[OF assms(1)] by (simp add: Sets_DeepEqual_iff)
  then show "\<exists>r h'. Sets_Merge s s h = Inr (r, h') \<and> h' = h \<and> Sets_DeepEqual r s h \<and>
            (\<forall>k. Sets_Lookup r k h' = Sets_Lookup s k h)"
    by (intro exI)
next
  from Merge_then_Merge[OF assms(2,3)] obtain r1 h1 r2 h2 where
    m: "Sets_Merge s1 s2 h = Inr (r1, h1)" "Sets_Merge s2 s1 h1 = Inr (r2, h2)"
    and eq: "table_of (psMap r1) h2 = table_of (psMap r2) h2"
    and keep: "table_of (psMap r1) h2 = table_of (psMap r1) h1"
    by (elim exE conjE)
  have "\<forall>k. Sets_Lookup r1 k h2 = Sets_Lookup r1 k h1"
    using keep by (intro allI Sets_Lookup_eqI)
  with m eq have "Sets_Merge s1 s2 h = Inr (r1, h1) \<and> Sets_Merge s2 s1 h1 = Inr (r2, h2) \<and>
            Sets_DeepEqual r1 r2 h2 \<and> (\<forall>k. Sets_Lookup r1 k h2 = Sets_Lookup r1 k h1)"
    by (simp add: Sets_DeepEqual_iff)
  then show "\<exists>r1 h1 r2 h2. Sets_Merge s1 s2 h = Inr (r1, h1) \<and> Sets_Merge s2 s1 h1 = Inr (r2, h2) \<and>
            Sets_DeepEqual r1 r2 h2 \<and> (\<forall>k. Sets_Lookup r1 k h2 = Sets_Lookup r1 k h1)"
    by (intro exI)
next
  from Sets_Merge_char[OF assms(2,3)] obtain r1 h1 where
    a: "Sets_Merge s1 s2 h = Inr (r1, h1)"
    and ta: "\<forall>k. table_of (psMap r1) h1 k = union_opt (table_of (psMap s1) h k) (table_of (psMap s2) h k)"
    by (elim exE conjE)
  from Sets_Merge_char[OF assms(3,2)] obtain r2 h2 where
    b: "Sets_Merge s2 s1 h = Inr (r2, h2)"
    and tb: "\<forall>k. table_of (psMap r2) h2 k = union_opt (table_of (psMap s2) h k) (table_of (psMap s1) h k)"
    by (elim exE conjE)
  have "table_of (psMap r1) h1 = table_of (psMap r2) h2"
  proof
    fix k
    have "union_opt (table_of (psMap s1) h k) (table_of (psMap s2) h k) =
          union_opt (table_of (psMap s2) h k) (table_of (psMap s1) h k)"
      by (rule union_opt_commute[OF StringSets_only_table[OF assms(2)] StringSets_only_table[OF assms(3)]])
    then show "table_of (psMap r1) h1 k = table_of (psMap r2) h2 k"
      using ta tb by simp
  qed
  then have "\<forall>k. Sets_Lookup r1 k h1 = Sets_Lookup r2 k h2"
    by (intro allI Sets_Lookup_eqI)
  with a b have "Sets_Merge s1 s2 h = Inr (r1, h1) \<and> Sets_Merge s2 s1 h = Inr (r2, h2) \<and>
            (\<forall>k. Sets_Lookup r1 k h1 = Sets_Lookup r2 k h2)"
    by (intro conjI)
  then show "\<exists>r1 h1 r2 h2. Sets_Merge s1 s2 h = Inr (r1, h1) \<and> Sets_Merge s2 s1 h = Inr (r2, h2) \<and>
            (\<forall>k. Sets_Lookup r1 k h1 = Sets_Lookup r2 k h2)"
    by (intro exI)
qed

text \<open>
  On the store with two tables: merging the first table with itself changes nothing and
  \<open>Lookup(x)\<close> still returns \<open>{1}\<close>; merging the two tables in both orders gives equal values.
\<close>

theorem Merge_idempotent_commutative_witness:
  "StringSets_only \<lparr>psMap = Some 1\<rparr> two_tables \<and> StringSets_only \<lparr>psMap = Some 2\<rparr> two_tables \<and>
   (\<exists>r h'. Sets_Merge \<lparr>psMap = Some 1\<rparr> \<lparr>psMap = Some 1\<rparr> two_tables = Inr (r, h') \<and>
      h' = two_tables \<and> Sets_DeepEqual r \<lparr>psMap = Some 1\<rparr> two_tables \<and>
      Sets_Lookup r ''x'' h' = Inr ({''1''}, True)) \<and>
   (\<exists>r1 h1 r2 h2. Sets_Merge \<lparr>psMap = Some 1\<rparr> \<lparr>psMap = Some 2\<rparr> two_tables = Inr (r1, h1) \<and>
      Sets_Merge \<lparr>psMap = Some 2\<rparr> \<lparr>psMap = Some 1\<rparr> h1 = Inr (r2, h2) \<and> Sets_DeepEqual r1 r2 h2)"
proof -
  have w1: "StringSets_only \<lparr>psMap = Some 1\<rparr> two_tables"
    and w2: "StringSets_only \<lparr>psMap = Some 2\<rparr> two_tables"
    by (simp_all add: two_tables_def table_eval)
  have l1: "Sets_Lookup \<lparr>psMap = Some 1\<rparr> ''x'' two_tables = Inr ({''1''}, True)"
    by (simp add: two_tables_def table_eval)
  note parts = Merge_idempotent_commutative[OF w1 w1 w2]
  from parts[THEN conjunct1] obtain r h' where
    i: "Sets_Merge \<lparr>psMap = Some 1\<rparr> \<lparr>psMap = Some 1\<rparr> two_tables = Inr (r, h')"
      "h' = two_tables" "Sets_DeepEqual r \<lparr>psMap = Some 1\<rparr> two_tables"
    and lk: "\<forall>k. Sets_Lookup r k h' = Sets_Lookup \<lparr>psMap = Some 1\<rparr> k two_tables"
    by (elim exE conjE)
  from lk l1 have "Sets_Lookup r ''x'' h' = Inr ({''1''}, True)" by simp
  with i have "Sets_Merge \<lparr>psMap = Some 1\<rparr> \<lparr>psMap = Some 1\<rparr> two_tables = Inr (r, h') \<and>
      h' = two_tables \<and> Sets_DeepEqual r \<lparr>psMap = Some 1\<rparr> two_tables \<and>
      Sets_Lookup r ''x'' h' = Inr ({''1''}, True)"
    by (intro conjI)
  then have idem: "\<exists>r h'. Sets_Merge \<lparr>psMap = Some 1\<rparr> \<lparr>psMap = Some 1\<rparr> two_tables = Inr (r, h') \<and>
      h' = two_tables \<and> Sets_DeepEqual r \<lparr>psMap = Some 1\<rparr> two_tables \<and>
      Sets_Lookup r ''x'' h' = Inr ({''1''}, True)"
    by (intro exI)
  from parts[THEN conjunct2, THEN conjunct1] obtain r1 h1 r2 h2 where
    "Sets_Merge \<lparr>psMap = Some 1\<rparr> \<lparr>psMap = Some 2\<rparr> two_tables = Inr (r1, h1)"
    "Sets_Merge \<lparr>psMap = Some 2\<rparr> \<lparr>psMap = Some 1\<rparr> h1 = Inr (r2, h2)"
    "Sets_DeepEqual r1 r2 h2"
    by (elim exE conjE)
  then have "Sets_Merge \<lparr>psMap = Some 1\<rparr> \<lparr>psMap = Some 2\<rparr> two_tables = Inr (r1, h1) \<and>
      Sets_Merge \<lparr>psMap = Some 2\<rparr> \<lparr>psMap = Some 1\<rparr> h1 = Inr (r2, h2) \<and> Sets_DeepEqual r1 r2 h2"
    by (intro conjI)
  then have comm: "\<exists>r1 h1 r2 h2. Sets_Merge \<lparr>psMap = Some 1\<rparr> \<lparr>psMap = Some 2\<rparr> two_tables = Inr (r1, h1) \<and>
      Sets_Merge \<lparr>psMap = Some 2\<rparr> \<lparr>psMap = Some 1\<rparr> h1 = Inr (r2, h2) \<and> Sets_DeepEqual r1 r2 h2"
    by (intro exI)
  from w1 w2 idem comm show ?thesis by (intro conjI)
qed

subsection \<open>Lookup of an absent key\<close>

text \<open>
  Claim C6. For every \<open>Sets\<close> value \<open>s\<close> and every key absent from \<open>s\<close>, also when the map of
  \<open>s\<close> is nil, \<open>Lookup\<close> returns the empty StringSet and the flag false: it does not panic,
  whatever the other keys hold.
\<close>

theorem Lookup_absent_key:
  assumes "absent s key h"
  shows "Sets_Lookup s key h = Inr (MakeStringSet, False) \<and> MakeStringSet = {}"
proof (cases "psMap s")
  case None
  then show ?thesis by (simp add: Sets_Lookup_def MakeStringSet_def)
next
  case (Some cm)
  with assms have "DAList.lookup (h cm) key = None"
    by (simp add: absent_def Sets_Keys_def CustomHashmap_Keys_def DAList.lookup.rep_eq map_of_eq_None_iff)
  then show ?thesis using Some
    by (simp add: Sets_Lookup_def CustomHashmap_Lookup_def MakeStringSet_def)
qed

theorem Lookup_absent_key_witness:
  "absent \<lparr>psMap = None\<rparr> ''x'' two_tables \<and>
   Sets_Lookup \<lparr>psMap = None\<rparr> ''x'' two_tables = Inr ({}, False) \<and>
   absent \<lparr>psMap = Some 1\<rparr> ''y'' (two_tables(1 := DAList.update ''z'' Foreign (two_tables 1))) \<and>
   Sets_Lookup \<lparr>psMap = Some 1\<rparr> ''y'' (two_tables(1 := DAList.update ''z'' Foreign (two_tables 1))) = Inr ({}, False)"
proof -
  have a1: "absent \<lparr>psMap = None\<rparr> ''x'' two_tables"
    by (simp add: absent_def Sets_Keys_def)
  have a2: "absent \<lparr>psMap = Some 1\<rparr> ''y'' (two_tables(1 := DAList.update ''z'' Foreign (two_tables 1)))"
    by (simp add: absent_def Sets_Keys_def CustomHashmap_Keys_def two_tables_def table_eval)
  have "Sets_Lookup \<lparr>psMap = None\<rparr> ''x'' two_tables = Inr ({}, False)"
    using Lookup_absent_key[OF a1] by simp
  moreover have "Sets_Lookup \<lparr>psMap = Some 1\<rparr> ''y'' (two_tables(1 := DAList.update ''z'' Foreign (two_tables 1))) = Inr ({}, False)"
    using Lookup_absent_key[OF a2] by simp
  ultimately show ?thesis using a1 a2 by (intro conjI)
qed

subsection \<open>Add writes into the value it is called on\<close>

text \<open>
  Claim C1 says that no operation alters what \<open>Lookup\<close> returns on a value obtained
  earlier. \<open>CustomHashmap.Set\<close> writes into its receiver, and every \<open>Sets\<close> that \<open>MakeSets\<close>
  returns points to the one \<open>customHashMap\<close>: on the empty \<open>Sets\<close> \<open>s\<close>, \<open>s.Lookup(k)\<close> finds
  nothing, \<open>s.Add(k, {a})\<close> returns \<open>s\<close> itself over a changed store, and \<open>s.Lookup(k)\<close> then
  returns \<open>{a}\<close>.
\<close>

theorem Add_alters_the_receiver:
  "Sets_Lookup MakeSets ''k'' init_heap = Inr ({}, False) \<and>
   Sets_Add MakeSets ''k'' {''a''} init_heap =
     Inr (MakeSets, init_heap(customHashMap := DAList.update ''k'' (StringSetV {''a''}) DAList.empty)) \<and>
   Sets_Lookup MakeSets ''k''
     (init_heap(customHashMap := DAList.update ''k'' (StringSetV {''a''}) DAList.empty)) = Inr ({''a''}, True)"
  by (simp add: Sets_Add_def MakeSets_def emptySets_def NewCustomHashMap_def customHashMap_def
      CustomHashmap_Set_def StringSet_Merge_def table_eval)

subsection \<open>The JSON methods\<close>

text \<open>
  Claim C10. \<open>MarshalJSON\<close> on any \<open>Sets\<close> and \<open>UnmarshalJSON\<close> on any pointer and any bytes
  panic and return no value.
\<close>

theorem JSON_methods_panic:
  "Sets_MarshalJSON s = Inl (Panic ''MarshalJSON shouldn't be used, use CodecEncodeSelf instead'') \<and>
   (\<forall>v. Sets_MarshalJSON s \<noteq> Inr v) \<and>
   Sets_UnmarshalJSON p b = Inl (Panic ''UnmarshalJSON shouldn't be used, use CodecDecodeSelf instead'') \<and>
   (\<forall>e. Sets_UnmarshalJSON p b \<noteq> Inr e)"
  by (simp add: Sets_MarshalJSON_def Sets_UnmarshalJSON_def)

section \<open>Properties of the app package\<close>

subsection \<open>File extensions\<close>

lemma HasSuffix_iff: "strings_HasSuffix s suf \<longleftrightarrow> (\<exists>p. s = p @ suf)"
proof
  assume "strings_HasSuffix s suf"
  then have "s = take (length s - length suf) s @ suf"
    by (metis append_take_drop_id strings_HasSuffix_def)
  then show "\<exists>p. s = p @ suf" ..
next
  assume "\<exists>p. s = p @ suf"
  then show "strings_HasSuffix s suf" by (auto simp: strings_HasSuffix_def)
qed

lemma TrimSuffix_append: "strings_TrimSuffix (p @ suf) suf = p"
  by (simp add: strings_TrimSuffix_def strings_HasSuffix_def)

lemma Ext_from_is_suffix: "\<exists>p. rev xs @ acc = p @ Ext_from xs acc"
proof (induction xs arbitrary: acc)
  case Nil
  show ?case by simp
next
  case (Cons c cs)
  show ?case
  proof (cases "c = CHR ''/''")
    case True
    then show ?thesis by simp
  next
    case False
    show ?thesis
    proof (cases "c = CHR ''.''")
      case True
      then show ?thesis by simp
    next
      case dot: False
      from Cons.IH[of "c # acc"] show ?thesis using False dot by simp
    qed
  qed
qed

lemma Ext_is_suffix: "\<exists>p. path = p @ filepath_Ext path"
  using Ext_from_is_suffix[of "rev path" "[]"] by (simp add: filepath_Ext_def)

lemma Ext_json: "filepath_Ext (p @ ''.json'') = ''.json''"
  and Ext_msgpack: "filepath_Ext (p @ ''.msgpack'') = ''.msgpack''"
  and Ext_binc: "filepath_Ext (p @ ''.binc'') = ''.binc''"
  and Ext_gz: "filepath_Ext (p @ ''.gz'') = ''.gz''"
  by (simp_all add: filepath_Ext_def)

lemma fileType_supported:
  "supported_suffix path \<longleftrightarrow> snd (snd (fileType path)) = None"
proof
  assume "supported_suffix path"
  then consider p where "path = p @ ''.json''" | p where "path = p @ ''.json'' @ ''.gz''"
    | p where "path = p @ ''.msgpack''" | p where "path = p @ ''.msgpack'' @ ''.gz''"
    | p where "path = p @ ''.binc''" | p where "path = p @ ''.binc'' @ ''.gz''"
    unfolding supported_suffix_def HasSuffix_iff by auto
  then show "snd (snd (fileType path)) = None"
  proof cases
    case 1 then show ?thesis by (simp add: fileType_def Ext_json)
  next
    case 2
    then have "path = (p @ ''.json'') @ ''.gz''" by simp
    then show ?thesis
      by (simp only: fileType_def Ext_gz TrimSuffix_append Ext_json Let_def) simp
  next
    case 3 then show ?thesis by (simp add: fileType_def Ext_msgpack)
  next
    case 4
    then have "path = (p @ ''.msgpack'') @ ''.gz''" by simp
    then show ?thesis
      by (simp only: fileType_def Ext_gz TrimSuffix_append Ext_msgpack Let_def) simp
  next
    case 5 then show ?thesis by (simp add: fileType_def Ext_binc)
  next
    case 6
    then have "path = (p @ ''.binc'') @ ''.gz''" by simp
    then show ?thesis
      by (simp only: fileType_def Ext_gz TrimSuffix_append Ext_binc Let_def) simp
  qed
next
  assume ok: "snd (snd (fileType path)) = None"
  define e where "e = filepath_Ext path"
  obtain p where p: "path = p @ e" using Ext_is_suffix[of path] e_def by auto
  show "supported_suffix path"
  proof (cases "e = ''.gz''")
    case False
    with ok have "e = ''.json'' \<or> e = ''.msgpack'' \<or> e = ''.binc''"
      by (auto simp: fileType_def Let_def e_def split: if_splits)
    then show ?thesis using p by (auto simp: supported_suffix_def HasSuffix_iff)
  next
    case True
    define e2 where "e2 = filepath_Ext p"
    obtain q where q: "p = q @ e2" using Ext_is_suffix[of p] e2_def by auto
    have "strings_TrimSuffix path e = p" using p by (simp add: TrimSuffix_append)
    with ok True have "e2 = ''.json'' \<or> e2 = ''.msgpack'' \<or> e2 = ''.binc''"
      by (auto simp: fileType_def Let_def e_def[symmetric] e2_def split: if_splits)
    then show ?thesis using p q True by (auto simp: supported_suffix_def HasSuffix_iff)
  qed
qed

lemma fileType_unsupported:
  assumes "\<not> supported_suffix path"
  shows "\<exists>ext. fileType path = (3, False, Some (Unsupported_file_extension ext))"
proof -
  from assms have "snd (snd (fileType path)) \<noteq> None" by (simp add: fileType_supported)
  then show ?thesis by (auto simp: fileType_def Let_def split: if_splits)
qed

lemma txt_unsupported: "\<not> supported_suffix ''report.txt''"
  by (simp add: supported_suffix_def strings_HasSuffix_def)

subsection \<open>The archiver and an unsupported suffix\<close>

text \<open>
  Claim C5, as amended. For every path whose suffix is not supported, \<open>WriteToFile\<close> returns
  an error and writes no encoded byte. When the file can be created the error is the
  unsupported-extension error, and the file is left at the path with length zero: it is
  created, or truncated when it existed, before the extension is looked at. When the file
  cannot be created, the error is that of \<open>os.Create\<close> and the file system is unchanged.
\<close>

theorem WriteToFile_unsupported_suffix:
  assumes "\<not> supported_suffix path"
  shows "\<exists>err. WriteToFile Encode gzip path rep fs =
           Inr (Some err, if creatable fs path then fs\<lparr>files := (files fs)(path \<mapsto> [])\<rparr> else fs) \<and>
           (creatable fs path \<longrightarrow> (\<exists>ext. err = Unsupported_file_extension ext)) \<and>
           (\<not> creatable fs path \<longrightarrow> err = PathError path)"
proof -
  from fileType_unsupported[OF assms] obtain ext where
    "fileType path = (3, False, Some (Unsupported_file_extension ext))" ..
  then show ?thesis by (simp add: WriteToFile_def os_Create_def)
qed

theorem WriteToFile_unsupported_suffix_witness:
  "\<not> supported_suffix ''report.txt'' \<and>
   WriteToFile no_bytes no_gzip ''report.txt'' () empty_disk =
     Inr (Some (Unsupported_file_extension ''.txt''), empty_disk\<lparr>files := [''report.txt'' \<mapsto> []]\<rparr>)"
proof -
  have c: "creatable empty_disk ''report.txt''" by (simp add: empty_disk_def)
  from WriteToFile_unsupported_suffix[OF txt_unsupported, of no_bytes no_gzip "()" empty_disk] c
  obtain err where "WriteToFile no_bytes no_gzip ''report.txt'' () empty_disk =
      Inr (Some err, empty_disk\<lparr>files := (files empty_disk)(''report.txt'' \<mapsto> [])\<rparr>)"
    by auto
  moreover have "WriteToFile no_bytes no_gzip ''report.txt'' () empty_disk =
     Inr (Some (Unsupported_file_extension ''.txt''), empty_disk\<lparr>files := [''report.txt'' \<mapsto> []]\<rparr>)"
    by (simp add: WriteToFile_def os_Create_def empty_disk_def fileType_def filepath_Ext_def)
  ultimately show ?thesis using txt_unsupported by simp
qed

text \<open>
  Claim C5 as it is written says that no file, not even an empty one, is left behind. On
  an empty disk, \<open>WriteToFile\<close> with the path \<open>report.txt\<close> returns the unsupported-extension
  error and leaves the file \<open>report.txt\<close> with length zero.
\<close>

theorem WriteToFile_leaves_empty_file:
  "\<not> supported_suffix ''report.txt'' \<and>
   files empty_disk ''report.txt'' = None \<and>
   WriteToFile no_bytes no_gzip ''report.txt'' () empty_disk =
     Inr (Some (Unsupported_file_extension ''.txt''), empty_disk\<lparr>files := [''report.txt'' \<mapsto> []]\<rparr>) \<and>
   files (empty_disk\<lparr>files := [''report.txt'' \<mapsto> []]\<rparr>) ''report.txt'' = Some []"
  by (simp add: WriteToFile_def os_Create_def empty_disk_def fileType_def filepath_Ext_def
      supported_suffix_def strings_HasSuffix_def)

subsection \<open>The single-node query keeps the node\<close>

lemma response_json_fileType: "fileType ''var/log/response.json'' = (0, False, None)"
  by (simp add: fileType_def filepath_Ext_def)

lemma WriteToFile_response_json:
  "\<exists>err fs'. WriteToFile Encode gzip ''var/log/response.json'' rep fs = Inr (err, fs')"
  by (cases "Encode JsonHandle rep")
     (simp add: WriteToFile_def os_Create_def response_json_fileType codecHandle_def)

lemma sint_dec:
  fixes w :: "64 word"
  assumes "sint w \<noteq> - (2 ^ 63)"
  shows "sint (w - 1) = sint w - 1"
proof -
  have lo: "- (2 ^ 63) \<le> sint w" using sint_ge[of w] by simp
  have hi: "sint w < 2 ^ 63" using sint_lt[of w] by simp
  have "sint (w - 1) = signed_take_bit 63 (sint w - 1)"
    by (simp add: sint_word_ariths)
  also have "\<dots> = sint w - 1"
    using lo hi assms by (simp add: signed_take_bit_int_eq_self_iff)
  finally show ?thesis .
qed

text \<open>
  Claim C4. When the node id of the request is a node of the unfiltered render,
  \<open>handleNode\<close> returns and its answer is not \<open>NotFound\<close>, whatever the transformer does.
  When the transformer keeps the node, the answer is built from the filtered node and
  the filtered result. When the transformer loses it, the node of the unfiltered render is
  put into the filtered result, the filtered count is decremented by one (as a 64-bit
  integer; as a number whenever the count is not the smallest integer), and the answer is
  built from the original node and the filtered result that holds it again.
\<close>

theorem handleNode_keeps_the_node:
  assumes "Nodes (renderer (Report rc)) (Vars_at (Vars r) ''id'') = Some node0"
  shows "\<exists>res. handleNode MakeNode CensorNode Encode gzip renderer transformer rc r fs = Inr res \<and>
           answer res \<noteq> NotFound \<and>
           (case Nodes (transformer (renderer (Report rc))) (Vars_at (Vars r) ''id'') of
              Some filteredNode \<Rightarrow>
                nodes_var res = transformer (renderer (Report rc)) \<and>
                answer res =
                  StatusOK (CensorNode
                    (MakeNode (Vars_at (Vars r) ''topology'') rc
                       (Nodes (transformer (renderer (Report rc)))) filteredNode)
                    (CensorConfig r))
            | None \<Rightarrow>
                Nodes (nodes_var res) =
                  (Nodes (transformer (renderer (Report rc))))(Vars_at (Vars r) ''id'' \<mapsto> node0) \<and>
                Filtered (nodes_var res) = Filtered (transformer (renderer (Report rc))) - 1 \<and>
                (sint (Filtered (transformer (renderer (Report rc)))) \<noteq> - (2 ^ 63) \<longrightarrow>
                   sint (Filtered (nodes_var res)) =
                     sint (Filtered (transformer (renderer (Report rc)))) - 1) \<and>
                answer res =
                  StatusOK (CensorNode
                    (MakeNode (Vars_at (Vars r) ''topology'') rc
                       ((Nodes (transformer (renderer (Report rc))))(Vars_at (Vars r) ''id'' \<mapsto> node0))
                       node0)
                    (CensorConfig r)))"
proof (cases "Nodes (transformer (renderer (Report rc))) (Vars_at (Vars r) ''id'')")
  case None
  let ?api = "CensorNode
                    (MakeNode (Vars_at (Vars r) ''topology'') rc
                       ((Nodes (transformer (renderer (Report rc))))(Vars_at (Vars r) ''id'' \<mapsto> node0))
                       node0)
                    (CensorConfig r)"
  from WriteToFile_response_json[of Encode gzip ?api fs] obtain err fs' where
    "WriteToFile Encode gzip ''var/log/response.json'' ?api fs = Inr (err, fs')" by blast
  then show ?thesis using assms None
    by (simp add: handleNode_def Let_def sint_dec)
next
  case (Some filteredNode)
  let ?api = "CensorNode
                    (MakeNode (Vars_at (Vars r) ''topology'') rc
                       (Nodes (transformer (renderer (Report rc)))) filteredNode)
                    (CensorConfig r)"
  from WriteToFile_response_json[of Encode gzip ?api fs] obtain err fs' where
    "WriteToFile Encode gzip ''var/log/response.json'' ?api fs = Inr (err, fs')" by blast
  then show ?thesis using assms Some
    by (simp add: handleNode_def Let_def)
qed

text \<open>The fourth example scenario of the specification: the transformer excludes \<open>n1\<close>.\<close>

theorem handleNode_keeps_the_node_witness:
  "Nodes (one_node (Report \<lparr>Report = (), MetricsGraphURL = []\<rparr>)) (Vars_at (Vars node_request) ''id'')
     = Some ''host-1'' \<and>
   Nodes (drop_all (one_node ())) ''n1'' = None \<and>
   (\<exists>res. handleNode plain_node no_censor no_bytes no_gzip one_node drop_all
            \<lparr>Report = (), MetricsGraphURL = []\<rparr> node_request empty_disk = Inr res \<and>
          answer res = StatusOK ''host-1'' \<and>
          Nodes (nodes_var res) ''n1'' = Some ''host-1'' \<and>
          Filtered (nodes_var res) = 0)"
proof -
  have a: "Nodes (one_node (Report \<lparr>Report = (), MetricsGraphURL = []\<rparr>)) (Vars_at (Vars node_request) ''id'')
     = Some ''host-1''"
    by (simp add: one_node_def node_request_def Vars_at_def)
  have b: "Nodes (drop_all (one_node ())) ''n1'' = None"
    by (simp add: drop_all_def)
  have id: "Vars_at (Vars node_request) ''id'' = ''n1''"
    by (simp add: node_request_def Vars_at_def)
  from handleNode_keeps_the_node[where renderer = one_node and rc = "\<lparr>Report = (), MetricsGraphURL = []\<rparr>"
      and r = node_request and ?node0.0 = "''host-1''" and MakeNode = plain_node and CensorNode = no_censor
      and Encode = no_bytes and gzip = no_gzip and transformer = drop_all and fs = empty_disk, OF a]
  obtain res where run: "handleNode plain_node no_censor no_bytes no_gzip one_node drop_all
            \<lparr>Report = (), MetricsGraphURL = []\<rparr> node_request empty_disk = Inr res"
    and rest: "case Nodes (drop_all (one_node (Report \<lparr>Report = (), MetricsGraphURL = []\<rparr>)))
                 (Vars_at (Vars node_request) ''id'') of
              Some filteredNode \<Rightarrow> True
            | None \<Rightarrow>
                Nodes (nodes_var res) =
                  (Nodes (drop_all (one_node (Report \<lparr>Report = (), MetricsGraphURL = []\<rparr>))))
                    (Vars_at (Vars node_request) ''id'' \<mapsto> ''host-1'') \<and>
                Filtered (nodes_var res) =
                  Filtered (drop_all (one_node (Report \<lparr>Report = (), MetricsGraphURL = []\<rparr>))) - 1 \<and>
                answer res =
                  StatusOK (no_censor
                    (plain_node (Vars_at (Vars node_request) ''topology'') \<lparr>Report = (), MetricsGraphURL = []\<rparr>
                       ((Nodes (drop_all (one_node (Report \<lparr>Report = (), MetricsGraphURL = []\<rparr>))))
                          (Vars_at (Vars node_request) ''id'' \<mapsto> ''host-1''))
                       ''host-1'')
                    (CensorConfig node_request))"
    by (auto split: option.splits)
  from rest have "answer res = StatusOK ''host-1'' \<and> Nodes (nodes_var res) ''n1'' = Some ''host-1'' \<and>
          Filtered (nodes_var res) = 0"
    by (simp add: id drop_all_def plain_node_def no_censor_def)
  with run a b show ?thesis by blast
qed

subsection \<open>One update cycle and the cycles of a session\<close>

lemma reports_of_append: "reports_of (xs @ ys) = reports_of xs @ reports_of ys"
  by (induction xs rule: reports_of.induct) simp_all

lemma ticks_of_append: "ticks_of (xs @ ys) = ticks_of xs @ ticks_of ys"
  by (induction xs rule: ticks_of.induct) simp_all

lemma rendered_of_append: "rendered_of (xs @ ys) = rendered_of xs @ rendered_of ys"
  by (induction xs rule: rendered_of.induct) simp_all

lemma update_cases:
  obtains (no_report) err where
      "rep_Report env (Time_Add (startReportingAt wc) (time_Since now (channelOpenedAt wc))) = Inl err"
      "update env wc now =
         (Some (Wrap err ''Error generating report''), wc,
          [Report_at (Time_Add (startReportingAt wc) (time_Since now (channelOpenedAt wc)))])"
  | (no_renderer) re0 err where
      "rep_Report env (Time_Add (startReportingAt wc) (time_Since now (channelOpenedAt wc))) = Inr re0"
      "update env wc now =
         (Some (Wrap err ''Error generating report''), wc,
          [Report_at (Time_Add (startReportingAt wc) (time_Since now (channelOpenedAt wc))),
           RendererForTopology_on (if \<not> adjacency wc then re0\<lparr>Endpoint := MakeTopology env\<rparr> else re0)])"
  | (sent) re0 res newTopo diff where
      "rep_Report env (Time_Add (startReportingAt wc) (time_Since now (channelOpenedAt wc))) = Inr re0"
      "update env wc now =
         (res, wc\<lparr>previousTopo := newTopo\<rparr>,
          [Report_at (Time_Add (startReportingAt wc) (time_Since now (channelOpenedAt wc))),
           RendererForTopology_on (if \<not> adjacency wc then re0\<lparr>Endpoint := MakeTopology env\<rparr> else re0),
           Render_on (if \<not> adjacency wc then re0\<lparr>Endpoint := MakeTopology env\<rparr> else re0),
           WriteJSON_of diff])"
proof (cases "rep_Report env (Time_Add (startReportingAt wc) (time_Since now (channelOpenedAt wc)))")
  case (Inl err)
  then show ?thesis by (intro no_report[of err]) (simp_all add: update_def Let_def)
next
  case (Inr re0)
  let ?re = "if \<not> adjacency wc then re0\<lparr>Endpoint := MakeTopology env\<rparr> else re0"
  show ?thesis
  proof (cases "RendererForTopology env (topologyID wc) (values_wc wc) ?re")
    case (Inl err)
    with Inr show ?thesis by (intro no_renderer[of re0 err]) (simp_all add: update_def Let_def)
  next
    case rf: (Inr rf)
    let ?newTopo = "CensorNodeSummaries env
                      (Summaries env (RenderContextForReporter (rep_MetricsGraphURL env) ?re)
                         (Nodes (render_Render env ?re rf)) (adjacency wc))
                      (censorCfg wc)"
    let ?diff = "TopoDiff env (previousTopo wc) ?newTopo"
    let ?res = "case conn_WriteJSON env ?diff of
                  Some err \<Rightarrow>
                    if \<not> IsExpectedWSCloseError env err
                    then Some (Wrap err ''cannot serialize topology diff'') else None
                | None \<Rightarrow> None"
    have "update env wc now =
            (?res, wc\<lparr>previousTopo := ?newTopo\<rparr>,
             [Report_at (Time_Add (startReportingAt wc) (time_Since now (channelOpenedAt wc))),
              RendererForTopology_on ?re, Render_on ?re, WriteJSON_of ?diff])"
    proof (cases "conn_WriteJSON env ?diff")
      case None
      then show ?thesis
        by (simp add: update_def Let_def Inr rf split del: if_split cong: if_cong)
    next
      case (Some a)
      then show ?thesis
        by (cases "IsExpectedWSCloseError env a")
           (simp_all add: update_def Let_def Inr rf split del: if_split cong: if_cong)
    qed
    with Inr show ?thesis by (rule sent)
  qed
qed

lemma update_reports:
  "reports_of (snd (snd (update env wc now))) =
     [Time_Add (startReportingAt wc) (time_Since now (channelOpenedAt wc))]"
  by (rule update_cases[of env wc now]) simp_all

lemma update_ticks: "ticks_of (snd (snd (update env wc now))) = []"
  by (rule update_cases[of env wc now]) simp_all

lemma update_rendered:
  "adjacency wc = False \<Longrightarrow>
   list_all (\<lambda>re. Endpoint re = MakeTopology env) (rendered_of (snd (snd (update env wc now))))"
  by (rule update_cases[of env wc now]) simp_all

lemma update_keeps:
  "adjacency (fst (snd (update env wc now))) = adjacency wc \<and>
   startReportingAt (fst (snd (update env wc now))) = startReportingAt wc \<and>
   channelOpenedAt (fst (snd (update env wc now))) = channelOpenedAt wc"
  by (rule update_cases[of env wc now]) simp_all

lemma update_loop_reports:
  "\<exists>n. n \<le> length inputs \<and>
       reports_of (fst (update_loop env wc inputs)) =
         map (\<lambda>i. Time_Add (startReportingAt wc) (time_Since (fst i) (channelOpenedAt wc)))
           (take n inputs)"
proof (induction inputs arbitrary: wc)
  case Nil
  show ?case by simp
next
  case (Cons i rest)
  obtain now ev where i: "i = (now, ev)" by (cases i)
  obtain res wc' tr where u: "update env wc now = (res, wc', tr)" by (cases "update env wc now")
  have tr: "reports_of tr = [Time_Add (startReportingAt wc) (time_Since now (channelOpenedAt wc))]"
    using update_reports[of env wc now] u by simp
  have keep: "startReportingAt wc' = startReportingAt wc" "channelOpenedAt wc' = channelOpenedAt wc"
    using update_keeps[of env wc now] u by simp_all
  let ?f = "\<lambda>i. Time_Add (startReportingAt wc) (time_Since (fst i) (channelOpenedAt wc))"
  show ?case
  proof (cases "res = None \<and> ev \<noteq> Quit_ready")
    case False
    then have "fst (update_loop env wc (i # rest)) = tr"
      using u i by (cases res; cases ev) simp_all
    then have "reports_of (fst (update_loop env wc (i # rest))) = map ?f (take 1 (i # rest))"
      using tr i by simp
    moreover have "(1::nat) \<le> length (i # rest)" by simp
    ultimately show ?thesis by blast
  next
    case True
    from Cons.IH[of wc'] obtain n where n: "n \<le> length rest"
      and ih: "reports_of (fst (update_loop env wc' rest)) = map ?f (take n rest)"
      using keep by auto
    have "fst (update_loop env wc (i # rest)) = tr @ fst (update_loop env wc' rest)"
      using u i True by (cases ev) (simp_all add: case_prod_beta)
    then have "reports_of (fst (update_loop env wc (i # rest))) = map ?f (take (Suc n) (i # rest))"
      using tr ih i by (simp add: reports_of_append)
    moreover have "Suc n \<le> length (i # rest)" using n by simp
    ultimately show ?thesis by blast
  qed
qed

lemma update_loop_ticks: "ticks_of (fst (update_loop env wc inputs)) = []"
proof (induction inputs arbitrary: wc)
  case Nil
  show ?case by simp
next
  case (Cons i rest)
  obtain now ev where i: "i = (now, ev)" by (cases i)
  obtain res wc' tr where u: "update env wc now = (res, wc', tr)" by (cases "update env wc now")
  have tr: "ticks_of tr = []" using update_ticks[of env wc now] u by simp
  show ?case
    using u i tr Cons.IH[of wc']
    by (cases res; cases ev) (simp_all add: case_prod_beta ticks_of_append)
qed

lemma update_loop_rendered:
  "adjacency wc = False \<Longrightarrow>
   list_all (\<lambda>re. Endpoint re = MakeTopology env) (rendered_of (fst (update_loop env wc inputs)))"
proof (induction inputs arbitrary: wc)
  case Nil
  show ?case by simp
next
  case (Cons i rest)
  obtain now ev where i: "i = (now, ev)" by (cases i)
  obtain res wc' tr where u: "update env wc now = (res, wc', tr)" by (cases "update env wc now")
  have tr: "list_all (\<lambda>re. Endpoint re = MakeTopology env) (rendered_of tr)"
    using update_rendered[OF Cons.prems, of env now] u by simp
  have "adjacency wc' = False" using update_keeps[of env wc now] u Cons.prems by simp
  then have "list_all (\<lambda>re. Endpoint re = MakeTopology env) (rendered_of (fst (update_loop env wc' rest)))"
    by (rule Cons.IH)
  then show ?case
    using u i tr
    by (cases res; cases ev) (simp_all add: case_prod_beta rendered_of_append)
qed

lemma handleWebsocket_session:
  assumes "ParseForm r = None"
    and "(if Values_Get (Form r) ''t'' \<noteq> [] then ParseDuration env (Values_Get (Form r) ''t'')
          else Inr websocketLoop) = Inr loop"
    and "xfer_Upgrade env = None"
  shows "handleWebsocket env r opened inputs =
           [Upgrade, WaitOn, Tick loop] @ fst (update_loop env (new_websocketState env r opened) inputs) @
           (if snd (update_loop env (new_websocketState env r opened) inputs) then [UnWait, Close] else [])"
  using assms by (simp add: handleWebsocket_def Let_def case_prod_beta)

lemma handleWebsocket_traces:
  "\<exists>n. n \<le> length inputs \<and>
     reports_of (handleWebsocket env r opened inputs) =
       map (\<lambda>i. Time_Add (startReportingAt (new_websocketState env r opened))
                  (time_Since (fst i) (channelOpenedAt (new_websocketState env r opened))))
         (take n inputs)"
  "adjacency (new_websocketState env r opened) = False \<Longrightarrow>
     list_all (\<lambda>re. Endpoint re = MakeTopology env) (rendered_of (handleWebsocket env r opened inputs))"
proof -
  let ?wc = "new_websocketState env r opened"
  let ?loop = "if Values_Get (Form r) ''t'' \<noteq> [] then ParseDuration env (Values_Get (Form r) ''t'')
          else Inr websocketLoop"
  consider (session) loop where "ParseForm r = None" "?loop = Inr loop" "xfer_Upgrade env = None"
    | (none) "reports_of (handleWebsocket env r opened inputs) = []"
             "rendered_of (handleWebsocket env r opened inputs) = []"
    by (cases "ParseForm r"; cases ?loop; cases "xfer_Upgrade env")
       (simp_all add: handleWebsocket_def Let_def)
  note cases = this
  show "\<exists>n. n \<le> length inputs \<and>
     reports_of (handleWebsocket env r opened inputs) =
       map (\<lambda>i. Time_Add (startReportingAt ?wc) (time_Since (fst i) (channelOpenedAt ?wc))) (take n inputs)"
  proof (cases rule: cases)
    case session
    from update_loop_reports[of inputs env ?wc] obtain n where "n \<le> length inputs"
      "reports_of (fst (update_loop env ?wc inputs)) =
         map (\<lambda>i. Time_Add (startReportingAt ?wc) (time_Since (fst i) (channelOpenedAt ?wc))) (take n inputs)"
      by blast
    then show ?thesis
      unfolding handleWebsocket_session[OF session] by (intro exI[of _ n]) (simp add: reports_of_append)
  next
    case none
    then show ?thesis by (intro exI[of _ 0]) simp
  qed
  show "list_all (\<lambda>re. Endpoint re = MakeTopology env) (rendered_of (handleWebsocket env r opened inputs))"
    if "adjacency ?wc = False"
  proof (cases rule: cases)
    case session
    show ?thesis
      unfolding handleWebsocket_session[OF session]
      using update_loop_rendered[OF that, of env inputs] by (simp add: rendered_of_append)
  next
    case none
    then show ?thesis by simp
  qed
qed

lemmas stream_eval = handleWebsocket_def new_websocketState_def update_def demo_env_def
  stream_request_def Values_Get_def Vars_at_def Let_def websocketLoop_def time_Second_def
  Time_Add_def time_Since_def Time_Sub_def maxDuration_def minDuration_def
  RenderContextForReporter_def

subsection \<open>The poll interval\<close>

text \<open>
  Claim C7. When the form parses, the parameter \<open>t\<close> is absent and the upgrade succeeds,
  the one period handed to \<open>time.Tick\<close> is \<open>websocketLoop\<close>, which is one second
  (1000000000 nanoseconds). When \<open>t\<close> is present and \<open>time.ParseDuration\<close> rejects it, all
  that the handler does is to answer with status 400 and the text of \<open>t\<close>: no upgrade is
  attempted, nothing is registered with the reporter and no update cycle runs.
\<close>

theorem handleWebsocket_poll_interval:
  "(ParseForm r = None \<and> Values_Get (Form r) ''t'' = [] \<and> xfer_Upgrade env = None \<longrightarrow>
      ticks_of (handleWebsocket env r opened inputs) = [websocketLoop]) \<and>
   websocketLoop = time_Second \<and> time_Second = 1000000000 \<and>
   (ParseForm r = None \<and> Values_Get (Form r) ''t'' \<noteq> [] \<and>
    ParseDuration env (Values_Get (Form r) ''t'') = Inl e \<longrightarrow>
      handleWebsocket env r opened inputs = [Respond 400 (Body_text (Values_Get (Form r) ''t''))])"
proof (intro conjI impI)
  assume a: "ParseForm r = None \<and> Values_Get (Form r) ''t'' = [] \<and> xfer_Upgrade env = None"
  then have l: "(if Values_Get (Form r) ''t'' \<noteq> [] then ParseDuration env (Values_Get (Form r) ''t'')
          else Inr websocketLoop) = Inr websocketLoop" by simp
  from a have pf: "ParseForm r = None" and up: "xfer_Upgrade env = None" by simp_all
  from handleWebsocket_session[OF pf l up]
  show "ticks_of (handleWebsocket env r opened inputs) = [websocketLoop]"
    by (simp add: ticks_of_append update_loop_ticks)
next
  show "websocketLoop = time_Second" by (simp add: websocketLoop_def)
  show "time_Second = 1000000000" by (simp add: time_Second_def)
next
  assume "ParseForm r = None \<and> Values_Get (Form r) ''t'' \<noteq> [] \<and>
    ParseDuration env (Values_Get (Form r) ''t'') = Inl e"
  then show "handleWebsocket env r opened inputs = [Respond 400 (Body_text (Values_Get (Form r) ''t''))]"
    by (simp add: handleWebsocket_def Let_def)
qed

theorem handleWebsocket_poll_interval_witness:
  "ticks_of (handleWebsocket demo_env (stream_request []) 7000 [(7005, Tick_ready), (7010, Quit_ready)])
     = [1000000000] \<and>
   handleWebsocket demo_env (stream_request [(''t'', [''soon''])]) 7000 [(7005, Tick_ready)]
     = [Respond 400 (Body_text ''soon'')]"
proof -
  have a: "ParseForm (stream_request []) = None \<and> Values_Get (Form (stream_request [])) ''t'' = [] \<and>
      xfer_Upgrade demo_env = None"
    by (simp add: stream_request_def Values_Get_def demo_env_def)
  have b: "ParseForm (stream_request [(''t'', [''soon''])]) = None \<and>
      Values_Get (Form (stream_request [(''t'', [''soon''])])) ''t'' \<noteq> [] \<and>
      ParseDuration demo_env (Values_Get (Form (stream_request [(''t'', [''soon''])])) ''t'') =
        Inl (External_error ''time: invalid duration'')"
    by (simp add: stream_request_def Values_Get_def demo_env_def)
  have t: "Values_Get (Form (stream_request [(''t'', [''soon''])])) ''t'' = ''soon''"
    by (simp add: stream_request_def Values_Get_def)
  from handleWebsocket_poll_interval[where r = "stream_request []" and env = demo_env and opened = 7000
      and inputs = "[(7005, Tick_ready), (7010, Quit_ready)]"] a
  have "ticks_of (handleWebsocket demo_env (stream_request []) 7000 [(7005, Tick_ready), (7010, Quit_ready)])
     = [1000000000]" by simp
  moreover
  from handleWebsocket_poll_interval[where r = "stream_request [(''t'', [''soon''])]" and env = demo_env
      and e = "External_error ''time: invalid duration''" and opened = 7000
      and inputs = "[(7005, Tick_ready)]"] b
  have "handleWebsocket demo_env (stream_request [(''t'', [''soon''])]) 7000 [(7005, Tick_ready)]
     = [Respond 400 (Body_text ''soon'')]" by (simp add: t)
  ultimately show ?thesis by (intro conjI)
qed

subsection \<open>The adjacency flag\<close>

text \<open>
  Claim C8. The state of a new session has \<open>adjacency\<close> set unless the form parameter
  \<open>adjacency\<close> is the string \<open>false\<close>. In an update cycle of a state whose \<open>adjacency\<close> is
  false, every report handed to the registry and to the renderer has the empty topology
  of \<open>MakeTopology\<close> as its \<open>Endpoint\<close>; so has every report handed to them in any cycle of a
  session whose request carries \<open>adjacency=false\<close>.
\<close>

theorem adjacency_flag_clears_Endpoint:
  "adjacency (new_websocketState env r opened) = (Values_Get (Form r) ''adjacency'' \<noteq> ''false'') \<and>
   (adjacency wc = False \<longrightarrow>
      list_all (\<lambda>re. Endpoint re = MakeTopology env) (rendered_of (snd (snd (update env wc now))))) \<and>
   (Values_Get (Form r) ''adjacency'' = ''false'' \<longrightarrow>
      list_all (\<lambda>re. Endpoint re = MakeTopology env) (rendered_of (handleWebsocket env r opened inputs)))"
proof (intro conjI impI)
  show f: "adjacency (new_websocketState env r opened) = (Values_Get (Form r) ''adjacency'' \<noteq> ''false'')"
    by (simp add: new_websocketState_def Let_def)
  show "list_all (\<lambda>re. Endpoint re = MakeTopology env) (rendered_of (snd (snd (update env wc now))))"
    if "adjacency wc = False"
    using that by (rule update_rendered)
  show "list_all (\<lambda>re. Endpoint re = MakeTopology env) (rendered_of (handleWebsocket env r opened inputs))"
    if "Values_Get (Form r) ''adjacency'' = ''false''"
    using that f by (intro handleWebsocket_traces(2)) simp
qed

theorem adjacency_flag_clears_Endpoint_witness:
  "Values_Get (Form (stream_request [(''adjacency'', [''false''])])) ''adjacency'' = ''false'' \<and>
   rendered_of (handleWebsocket demo_env (stream_request [(''adjacency'', [''false''])]) 7000
      [(7005, Quit_ready)]) = [\<lparr>Endpoint = 0\<rparr>, \<lparr>Endpoint = 0\<rparr>] \<and>
   list_all (\<lambda>re. Endpoint re = MakeTopology demo_env)
     (rendered_of (handleWebsocket demo_env (stream_request [(''adjacency'', [''false''])]) 7000
        [(7005, Quit_ready)])) \<and>
   adjacency (new_websocketState demo_env (stream_request [(''adjacency'', [''no''])]) 7000) \<and>
   rendered_of (handleWebsocket demo_env (stream_request [(''adjacency'', [''no''])]) 7000
      [(7005, Quit_ready)]) = [\<lparr>Endpoint = 5\<rparr>, \<lparr>Endpoint = 5\<rparr>]"
proof -
  have a: "Values_Get (Form (stream_request [(''adjacency'', [''false''])])) ''adjacency'' = ''false''"
    by (simp add: stream_request_def Values_Get_def)
  have b: "Values_Get (Form (stream_request [(''adjacency'', [''no''])])) ''adjacency'' \<noteq> ''false''"
    by (simp add: stream_request_def Values_Get_def)
  have c: "rendered_of (handleWebsocket demo_env (stream_request [(''adjacency'', [''false''])]) 7000
      [(7005, Quit_ready)]) = [\<lparr>Endpoint = 0\<rparr>, \<lparr>Endpoint = 0\<rparr>]"
    by (simp add: stream_eval)
  have d: "rendered_of (handleWebsocket demo_env (stream_request [(''adjacency'', [''no''])]) 7000
      [(7005, Quit_ready)]) = [\<lparr>Endpoint = 5\<rparr>, \<lparr>Endpoint = 5\<rparr>]"
    by (simp add: stream_eval)
  from adjacency_flag_clears_Endpoint[where env = demo_env
      and r = "stream_request [(''adjacency'', [''false''])]" and opened = 7000
      and wc = "new_websocketState demo_env (stream_request [(''adjacency'', [''false''])]) 7000"
      and now = 7005 and inputs = "[(7005, Quit_ready)]"] a
  have "list_all (\<lambda>re. Endpoint re = MakeTopology demo_env)
     (rendered_of (handleWebsocket demo_env (stream_request [(''adjacency'', [''false''])]) 7000
        [(7005, Quit_ready)]))" by simp
  moreover
  from adjacency_flag_clears_Endpoint[where env = demo_env
      and r = "stream_request [(''adjacency'', [''no''])]" and opened = 7000
      and wc = "new_websocketState demo_env (stream_request [(''adjacency'', [''no''])]) 7000"
      and now = 7005 and inputs = "[(7005, Quit_ready)]"] b
  have "adjacency (new_websocketState demo_env (stream_request [(''adjacency'', [''no''])]) 7000)"
    by simp
  ultimately show ?thesis using a c d by (intro conjI)
qed

subsection \<open>The replay timestamp\<close>

text \<open>
  Claim C9. An update cycle asks the reporter for one report, at the timestamp
  \<open>startReportingAt.Add(time.Since(channelOpenedAt))\<close>. Whenever the time elapsed since the
  session was opened fits a \<open>time.Duration\<close> (some 292 years either way), that timestamp
  is \<open>startReportingAt + (now - channelOpenedAt)\<close>: the replay advances with the clock, at
  the rate one. In a session, the timestamps asked for in the successive cycles are those
  of the successive readings of the clock, counted from the replay origin of the request
  and the time at which the session was opened.
\<close>

theorem update_fetches_the_replay_timestamp:
  "reports_of (snd (snd (update env wc now))) =
     [Time_Add (startReportingAt wc) (time_Since now (channelOpenedAt wc))] \<and>
   (minDuration \<le> now - channelOpenedAt wc \<and> now - channelOpenedAt wc \<le> maxDuration \<longrightarrow>
      Time_Add (startReportingAt wc) (time_Since now (channelOpenedAt wc)) =
        startReportingAt wc + (now - channelOpenedAt wc)) \<and>
   (\<exists>n. n \<le> length inputs \<and>
      reports_of (handleWebsocket env r opened inputs) =
        map (\<lambda>i. Time_Add (deserializeTimestamp env (Values_Get (Form r) ''timestamp''))
                   (time_Since (fst i) opened))
          (take n inputs))"
proof (intro conjI impI)
  show "reports_of (snd (snd (update env wc now))) =
     [Time_Add (startReportingAt wc) (time_Since now (channelOpenedAt wc))]"
    by (rule update_reports)
  show "Time_Add (startReportingAt wc) (time_Since now (channelOpenedAt wc)) =
        startReportingAt wc + (now - channelOpenedAt wc)"
    if "minDuration \<le> now - channelOpenedAt wc \<and> now - channelOpenedAt wc \<le> maxDuration"
    using that by (simp add: Time_Add_def time_Since_def Time_Sub_def)
  have "startReportingAt (new_websocketState env r opened) =
          deserializeTimestamp env (Values_Get (Form r) ''timestamp'')"
    and "channelOpenedAt (new_websocketState env r opened) = opened"
    by (simp_all add: new_websocketState_def Let_def)
  with handleWebsocket_traces(1)[of inputs env r opened]
  show "\<exists>n. n \<le> length inputs \<and>
      reports_of (handleWebsocket env r opened inputs) =
        map (\<lambda>i. Time_Add (deserializeTimestamp env (Values_Get (Form r) ''timestamp''))
                   (time_Since (fst i) opened))
          (take n inputs)"
    by simp
qed

theorem update_fetches_the_replay_timestamp_witness:
  "minDuration \<le> 7005 - channelOpenedAt (new_websocketState demo_env (stream_request []) 7000) \<and>
   7005 - channelOpenedAt (new_websocketState demo_env (stream_request []) 7000) \<le> maxDuration \<and>
   reports_of (snd (snd (update demo_env (new_websocketState demo_env (stream_request []) 7000) 7005)))
     = [1005] \<and>
   reports_of (handleWebsocket demo_env (stream_request []) 7000
     [(7005, Tick_ready), (7010, Quit_ready), (7020, Tick_ready)]) = [1005, 1010]"
proof -
  let ?wc = "new_websocketState demo_env (stream_request []) 7000"
  have o: "channelOpenedAt ?wc = 7000" and st: "startReportingAt ?wc = 1000"
    by (simp_all add: new_websocketState_def Let_def demo_env_def)
  have h: "minDuration \<le> 7005 - channelOpenedAt ?wc \<and> 7005 - channelOpenedAt ?wc \<le> maxDuration"
    by (simp add: o minDuration_def maxDuration_def)
  from update_fetches_the_replay_timestamp[where env = demo_env and wc = ?wc and now = 7005
      and inputs = "[]" and r = "stream_request []" and opened = 7000] h
  have "reports_of (snd (snd (update demo_env ?wc 7005))) = [startReportingAt ?wc + (7005 - channelOpenedAt ?wc)]"
    by simp
  then have "reports_of (snd (snd (update demo_env ?wc 7005))) = [1005]"
    by (simp add: o st)
  moreover have "reports_of (handleWebsocket demo_env (stream_request []) 7000
     [(7005, Tick_ready), (7010, Quit_ready), (7020, Tick_ready)]) = [1005, 1010]"
    by (simp add: stream_eval)
  ultimately show ?thesis using h by (intro conjI) simp_all
qed

end
